theory Spec2Isabelle
  imports Complex_Main
begin

section \<open>Data model (src/types/index.ts)\<close>

text \<open>
  A console level is one of the three literals \<^verbatim>\<open>'log' | 'warn' | 'error'\<close>.
\<close>

datatype level = Log | Warn | Error

text \<open>
  \<^verbatim>\<open>LogEntry\<close>: level, message, timestamp (epoch milliseconds) and an optional stack.
\<close>

record LogEntry =
  level :: level
  message :: string
  timestamp :: int
  stack :: "string option"

text \<open>
  The values that the widget's own code handles (the errors it catches and logs) are
  modelled by what the code observes of them: whether \<^verbatim>\<open>typeof v === 'object'\<close>, what
  \<^verbatim>\<open>JSON.stringify(v)\<close> gives (or that it throws), what \<^verbatim>\<open>String(v)\<close> gives, and, for an
  \<^verbatim>\<open>Error\<close> instance, its \<^verbatim>\<open>stack\<close> property:
  \<^item> \<open>Prim s\<close>: a value whose \<^verbatim>\<open>typeof\<close> is not \<^verbatim>\<open>'object'\<close> (string, number, boolean,
    undefined, function, ...), with \<open>s\<close> its \<^verbatim>\<open>String()\<close> rendering;
  \<^item> \<open>Obj j s\<close>: a value whose \<^verbatim>\<open>typeof\<close> is \<^verbatim>\<open>'object'\<close> and that is no \<^verbatim>\<open>Error\<close>
    (\<^verbatim>\<open>null\<close> included), \<open>j\<close> the result of \<^verbatim>\<open>JSON.stringify\<close> (\<open>None\<close> when it throws, as
    on a cyclic structure) and \<open>s\<close> its \<^verbatim>\<open>String()\<close> rendering;
  \<^item> \<open>Err j s st\<close>: an \<^verbatim>\<open>Error\<close> instance, with \<open>st\<close> its \<^verbatim>\<open>stack\<close> property
    (\<open>None\<close> when undefined).

  Where \<^verbatim>\<open>JSON.stringify\<close> returns \<^verbatim>\<open>undefined\<close>, which \<^verbatim>\<open>join\<close> renders as the empty string,
  \<open>j\<close> is \<open>Some []\<close>. These are the well-behaved values: \<^verbatim>\<open>String(v)\<close> returns on them.
\<close>

datatype jsval =
    Prim string
  | Obj "string option" string
  | Err "string option" string "string option"

fun to_String :: "jsval \<Rightarrow> string" where
  "to_String (Prim s) = s"
| "to_String (Obj j s) = s"
| "to_String (Err j s st) = s"

text \<open>
  An argument that the page hands to a console function is any JavaScript value
  whatever, and \<^verbatim>\<open>captureLog\<close> can fail on it. The method makes four observations of an
  argument, and an argument is the record of what they give:
  \<^item> \<^verbatim>\<open>typeof arg === 'object'\<close>, which never throws;
  \<^item> \<^verbatim>\<open>JSON.stringify(arg)\<close>, called inside \<^verbatim>\<open>try\<close> and on objects only: the string
    (the empty one where it returns \<^verbatim>\<open>undefined\<close>, which \<^verbatim>\<open>join\<close> renders so), or \<open>None\<close>
    when it throws;
  \<^item> \<^verbatim>\<open>String(arg)\<close>, called outside any \<^verbatim>\<open>try\<close> (in the \<^verbatim>\<open>catch\<close> block and on the path of
    the non-objects): the string, or the value it throws (a \<^verbatim>\<open>toString\<close> that throws, that
    is missing as on an object without prototype, or that returns an object);
  \<^item> on the first argument of \<^verbatim>\<open>console.error\<close>, \<^verbatim>\<open>arg instanceof Error\<close> and then
    \<^verbatim>\<open>arg.stack\<close>: \<open>Inr None\<close> when the value is no \<^verbatim>\<open>Error\<close>, \<open>Inr (Some st)\<close> when it is one
    and \<^verbatim>\<open>stack\<close> gives \<open>st\<close> (\<open>None\<close> when undefined), \<open>Inl e\<close> when the test or the read
    throws \<open>e\<close> (a proxy whose \<^verbatim>\<open>getPrototypeOf\<close> trap throws, a \<^verbatim>\<open>stack\<close> getter that
    throws).

  A thrown value is identified by a number: the capture code never looks at one, it
  reaches the caller of the console function.
\<close>

datatype thrown = Thrown nat

record arg =
  arg_object :: bool
  arg_JSON :: "string option"
  arg_String :: "thrown + string"
  arg_stack :: "thrown + string option option"

text \<open>A well-behaved value as an argument.\<close>

fun plain :: "jsval \<Rightarrow> arg" where
  "plain (Prim s) =
     \<lparr> arg_object = False, arg_JSON = None, arg_String = Inr s, arg_stack = Inr None \<rparr>"
| "plain (Obj j s) =
     \<lparr> arg_object = True, arg_JSON = j, arg_String = Inr s, arg_stack = Inr None \<rparr>"
| "plain (Err j s st) =
     \<lparr> arg_object = True, arg_JSON = j, arg_String = Inr s, arg_stack = Inr (Some st) \<rparr>"

text \<open>
  The callback of \<^verbatim>\<open>args.map\<close> in \<^verbatim>\<open>captureLog\<close>: objects go through
  \<^verbatim>\<open>JSON.stringify\<close>, with \<^verbatim>\<open>String(arg)\<close> in the \<^verbatim>\<open>catch\<close>; everything else is
  \<^verbatim>\<open>String(arg)\<close>. \<open>Inl e\<close>: the callback throws \<open>e\<close>.
\<close>

definition stringify_arg :: "arg \<Rightarrow> thrown + string" where
  "stringify_arg a =
     (if arg_object a
      then (case arg_JSON a of Some t \<Rightarrow> Inr t | None \<Rightarrow> arg_String a)
      else arg_String a)"

text \<open>
  \<^verbatim>\<open>args.map(callback)\<close>: the arguments are taken from left to right, and the first throw
  ends the whole of it.
\<close>

fun map_stringify :: "arg list \<Rightarrow> thrown + string list" where
  "map_stringify [] = Inr []"
| "map_stringify (a # rest) =
     (case stringify_arg a of
        Inl e \<Rightarrow> Inl e
      | Inr s \<Rightarrow> (case map_stringify rest of Inl e \<Rightarrow> Inl e | Inr ss \<Rightarrow> Inr (s # ss)))"

text \<open>\<^verbatim>\<open>Array.prototype.join\<close> with a separator.\<close>

fun join :: "string \<Rightarrow> string list \<Rightarrow> string" where
  "join sep [] = []"
| "join sep [x] = x"
| "join sep (x # y # ys) = x @ sep @ join sep (y # ys)"

text \<open>
  The stack attached to an entry: only on level \<^verbatim>\<open>'error'\<close> and only when
  \<^verbatim>\<open>args[0] instanceof Error\<close> (an empty argument list has \<^verbatim>\<open>args[0]\<close> undefined, which is
  no \<^verbatim>\<open>Error\<close>). On the other levels \<^verbatim>\<open>&&\<close> does not get to the test.
\<close>

definition entry_stack :: "level \<Rightarrow> arg list \<Rightarrow> thrown + string option" where
  "entry_stack l args =
     (if l = Error
      then (case args of
              [] \<Rightarrow> Inr None
            | a # rest \<Rightarrow>
                (case arg_stack a of
                   Inl e \<Rightarrow> Inl e
                 | Inr None \<Rightarrow> Inr None
                 | Inr (Some st) \<Rightarrow> Inr st))
      else Inr None)"

text \<open>
  The entry that \<^verbatim>\<open>captureLog\<close> builds, in the order of the method: the message, the
  timestamp, and then the stack. \<open>Inl e\<close>: the method throws \<open>e\<close> before it has an entry.
\<close>

definition make_entry :: "level \<Rightarrow> arg list \<Rightarrow> int \<Rightarrow> thrown + LogEntry" where
  "make_entry l args now =
     (case map_stringify args of
        Inl e \<Rightarrow> Inl e
      | Inr ss \<Rightarrow>
          (case entry_stack l args of
             Inl e \<Rightarrow> Inl e
           | Inr st \<Rightarrow>
               Inr \<lparr> level = l, message = join '' '' ss, timestamp = now, stack = st \<rparr>))"

section \<open>Console capture (src/capture/console-capture.ts)\<close>

text \<open>
  JavaScript arrays are mutable objects reached through references, and \<^verbatim>\<open>getLogs\<close>
  is there to hand out a copy. The arrays of log entries therefore live in an explicit
  store: an address is an index into the store, allocation appends a cell.
\<close>

type_synonym addr = nat
type_synonym heap = "LogEntry list list"

definition alloc :: "LogEntry list \<Rightarrow> heap \<Rightarrow> addr \<times> heap" where
  "alloc xs h = (length h, h @ [xs])"

text \<open>
  The global \<^verbatim>\<open>console\<close> object holds one function reference per level. A reference is
  either a function of the host page, identified by a number, or the wrapper that the
  \<^verbatim>\<open>start()\<close> of a capture object installs for a level. Capture objects are numbered in
  the order they are constructed.
\<close>

datatype console_fn = Host nat | Wrapper nat level

record console =
  log :: console_fn
  warn :: console_fn
  error :: console_fn

fun console_get :: "console \<Rightarrow> level \<Rightarrow> console_fn" where
  "console_get c Log = log c"
| "console_get c Warn = warn c"
| "console_get c Error = error c"

text \<open>
  A JavaScript number: a finite value, \<^verbatim>\<open>NaN\<close>, or one of the two infinities. Every
  finite double is a rational number; the model admits every rational (and does not tell
  \<^verbatim>\<open>-0\<close> from \<^verbatim>\<open>0\<close>, which compare alike).
\<close>

datatype number = Num rat | NaN | PosInfinity | NegInfinity

text \<open>
  \<^verbatim>\<open>n > m\<close> for an array length \<open>n\<close> and a number \<open>m\<close>: every comparison with \<^verbatim>\<open>NaN\<close> is
  false.
\<close>

fun exceeds :: "nat \<Rightarrow> number \<Rightarrow> bool" where
  "exceeds n (Num r) = (r < of_nat n)"
| "exceeds n NaN = False"
| "exceeds n PosInfinity = False"
| "exceeds n NegInfinity = True"

text \<open>
  The fields of a \<^verbatim>\<open>ConsoleCapture\<close>. \<^verbatim>\<open>maxEntries\<close> is declared a \<^verbatim>\<open>number\<close> and is never
  validated. \<^verbatim>\<open>originalConsole\<close> is initialised when the object is constructed, from
  the console as it is then.
\<close>

record ConsoleCapture =
  logs :: addr
  maxEntries :: number
  originalConsole :: console

text \<open>
  What the capture code reads and writes: the array store, the global console, the
  capture objects constructed so far, and the calls that reached the host's own console
  functions (the observable behaviour of the original channel), oldest first.
\<close>

record world =
  heap :: heap
  console :: console
  captures :: "ConsoleCapture list"
  forwarded :: "(nat \<times> arg list) list"

text \<open>A page on which no capture object exists yet: the console holds host functions.\<close>

definition host_world :: "nat \<Rightarrow> nat \<Rightarrow> nat \<Rightarrow> world" where
  "host_world f g h =
     \<lparr> heap = [], console = \<lparr> log = Host f, warn = Host g, error = Host h \<rparr>,
       captures = [], forwarded = [] \<rparr>"

text \<open>
  \<^verbatim>\<open>new ConsoleCapture(maxEntries)\<close>. The parameter has the default \<^verbatim>\<open>1000\<close>, taken when the
  argument is undefined (\<open>None\<close>); the constructor stores the number as it is. \<^verbatim>\<open>logs\<close>
  starts as a fresh empty array, \<^verbatim>\<open>originalConsole\<close> as the three references the console
  holds now. The result is the number of the new object and the world with it.
\<close>

definition limit_of :: "number option \<Rightarrow> number" where
  "limit_of m = (case m of None \<Rightarrow> Num 1000 | Some n \<Rightarrow> n)"

definition new_ConsoleCapture :: "number option \<Rightarrow> world \<Rightarrow> nat \<times> world" where
  "new_ConsoleCapture m w =
     (let (a, h) = alloc [] (heap w)
      in (length (captures w),
          w\<lparr> heap := h,
             captures := captures w @
               [\<lparr> logs = a, maxEntries = limit_of m,
                  originalConsole = \<lparr> log = log (console w), warn = warn (console w),
                                      error = error (console w) \<rparr> \<rparr>] \<rparr>))"

text \<open>\<^verbatim>\<open>start()\<close> and \<^verbatim>\<open>stop()\<close> of the object \<open>i\<close>: three assignments to the console each.\<close>

definition start :: "nat \<Rightarrow> world \<Rightarrow> world" where
  "start i w =
     w\<lparr> console := \<lparr> log = Wrapper i Log, warn = Wrapper i Warn, error = Wrapper i Error \<rparr> \<rparr>"

definition stop :: "nat \<Rightarrow> world \<Rightarrow> world" where
  "stop i w =
     w\<lparr> console :=
         \<lparr> log = log (originalConsole (captures w ! i)),
           warn = warn (originalConsole (captures w ! i)),
           error = error (originalConsole (captures w ! i)) \<rparr> \<rparr>"

text \<open>
  \<^verbatim>\<open>captureLog\<close>: build the entry, \<^verbatim>\<open>push\<close> it on the array \<^verbatim>\<open>this.logs\<close> refers to,
  then \<^verbatim>\<open>shift\<close> once when the length exceeds \<^verbatim>\<open>maxEntries\<close>. Both mutate the array in
  place. When building the entry throws, the method is left before the \<^verbatim>\<open>push\<close>, with
  nothing changed (\<open>Inl e\<close>).
\<close>

definition push_shift :: "number \<Rightarrow> LogEntry \<Rightarrow> LogEntry list \<Rightarrow> LogEntry list" where
  "push_shift m e xs =
     (let ys = xs @ [e] in if exceeds (length ys) m then tl ys else ys)"

definition captureLog :: "nat \<Rightarrow> level \<Rightarrow> arg list \<Rightarrow> int \<Rightarrow> world \<Rightarrow> thrown + world" where
  "captureLog i l args now w =
     (case make_entry l args now of
        Inl e \<Rightarrow> Inl e
      | Inr entry \<Rightarrow>
          (let c = captures w ! i; a = logs c
           in Inr (w\<lparr> heap := (heap w)[a := push_shift (maxEntries c) entry (heap w ! a)] \<rparr>)))"

text \<open>
  \<^verbatim>\<open>getLogs\<close> returns \<^verbatim>\<open>[...this.logs]\<close>: a new array with the current entries. \<^verbatim>\<open>clear\<close>
  assigns a new empty array to \<^verbatim>\<open>this.logs\<close>.
\<close>

definition getLogs :: "nat \<Rightarrow> world \<Rightarrow> addr \<times> world" where
  "getLogs i w =
     (let (a, h) = alloc (heap w ! logs (captures w ! i)) (heap w) in (a, w\<lparr> heap := h \<rparr>))"

definition clear :: "nat \<Rightarrow> world \<Rightarrow> world" where
  "clear i w =
     (let (a, h) = alloc [] (heap w)
      in w\<lparr> heap := h, captures := (captures w)[i := (captures w ! i)\<lparr> logs := a \<rparr>] \<rparr>)"

text \<open>The entries of the array that \<^verbatim>\<open>getLogs()\<close> of the object \<open>i\<close> returns.\<close>

definition snapshot :: "nat \<Rightarrow> world \<Rightarrow> LogEntry list" where
  "snapshot i w = (let (a, w') = getLogs i w in heap w' ! a)"

text \<open>
  Applying a console function to arguments at time \<open>now\<close> (the value \<^verbatim>\<open>Date.now()\<close> would
  give). The result is what the call throws (\<open>None\<close> when it returns) and the world it
  leaves. A host function receives the arguments and returns. The wrapper of the object
  \<open>i\<close> first captures, and when that throws the exception leaves the wrapper before the
  original is applied; else it applies the saved original of its level to the same
  arguments. The saved originals of an object were read when it was constructed, before
  its own wrappers existed, so a wrapper among them belongs to an object constructed
  earlier: the chain of wrappers descends and ends in a host function. (The last branch
  is a wrapper that saved itself or a later one, which no sequence of the operations
  produces, see \<open>descending_run_ops\<close> below; JavaScript would recurse without end there.)
\<close>

function call_fn :: "console_fn \<Rightarrow> arg list \<Rightarrow> int \<Rightarrow> world \<Rightarrow> thrown option \<times> world" where
  "call_fn (Host f) args now w = (None, w\<lparr> forwarded := forwarded w @ [(f, args)] \<rparr>)"
| "call_fn (Wrapper i l) args now w =
     (case captureLog i l args now w of
        Inl e \<Rightarrow> (Some e, w)
      | Inr w' \<Rightarrow>
          (case console_get (originalConsole (captures w' ! i)) l of
             Host f \<Rightarrow> (None, w'\<lparr> forwarded := forwarded w' @ [(f, args)] \<rparr>)
           | Wrapper j l' \<Rightarrow> if j < i then call_fn (Wrapper j l') args now w' else (None, w')))"
  by pat_completeness auto
termination
  by (relation "measure (\<lambda>(f, args, now, w). case f of Host g \<Rightarrow> 0 | Wrapper i l \<Rightarrow> Suc i)") auto

text \<open>A call \<^verbatim>\<open>console.<level>(...args)\<close>.\<close>

definition console_call :: "level \<Rightarrow> arg list \<Rightarrow> int \<Rightarrow> world \<Rightarrow> thrown option \<times> world" where
  "console_call l args now w = call_fn (console_get (console w) l) args now w"

text \<open>
  A sequence of calls made by the page, one after the other: what each call throws, and
  the world after the last. An exception reaches the code that made the call; the calls
  after it are made all the same.
\<close>

type_synonym call = "level \<times> arg list \<times> int"

fun console_calls :: "call list \<Rightarrow> world \<Rightarrow> thrown option list \<times> world" where
  "console_calls [] w = ([], w)"
| "console_calls ((l, args, now) # cs) w =
     (let (r, w') = console_call l args now w;
          (rs, w'') = console_calls cs w'
      in (r # rs, w''))"

text \<open>
  The operations on capture objects and the console, as the code of a page can sequence
  them: constructing an object, the four public methods of an object that exists, and a
  console call. A method call names an object that was constructed before; an operation
  that names no such object is passed over.
\<close>

datatype op =
    New "number option"
  | Start nat
  | Stop nat
  | Call level "arg list" int
  | GetLogs nat
  | Clear nat

fun run_op :: "op \<Rightarrow> world \<Rightarrow> world" where
  "run_op (New m) w = snd (new_ConsoleCapture m w)"
| "run_op (Start i) w = (if i < length (captures w) then start i w else w)"
| "run_op (Stop i) w = (if i < length (captures w) then stop i w else w)"
| "run_op (Call l args now) w = snd (console_call l args now w)"
| "run_op (GetLogs i) w = (if i < length (captures w) then snd (getLogs i w) else w)"
| "run_op (Clear i) w = (if i < length (captures w) then clear i w else w)"

fun run_ops :: "op list \<Rightarrow> world \<Rightarrow> world" where
  "run_ops [] w = w"
| "run_ops (x # xs) w = run_ops xs (run_op x w)"

text \<open>
  A capture object constructed on a page that has none yet; it is the object number 0.
\<close>

definition fresh_capture :: "nat \<Rightarrow> nat \<Rightarrow> nat \<Rightarrow> number option \<Rightarrow> world" where
  "fresh_capture f g h m = snd (new_ConsoleCapture m (host_world f g h))"

subsection \<open>Notions in which the properties of the capture are stated\<close>

text \<open>
  What a call comes to in \<^verbatim>\<open>captureLog\<close>: the entry it builds, or the value it throws.
  A sequence of calls has the entries of the calls that return, in call order.
\<close>

definition entry_of :: "call \<Rightarrow> thrown + LogEntry" where
  "entry_of c = (case c of (l, args, now) \<Rightarrow> make_entry l args now)"

definition raised :: "call \<Rightarrow> thrown option" where
  "raised c = (case entry_of c of Inl e \<Rightarrow> Some e | Inr x \<Rightarrow> None)"

definition returns :: "call \<Rightarrow> bool" where
  "returns c = (raised c = None)"

definition recorded :: "call list \<Rightarrow> LogEntry list" where
  "recorded cs = concat (map (\<lambda>c. case entry_of c of Inl e \<Rightarrow> [] | Inr x \<Rightarrow> [x]) cs)"

text \<open>
  The number of entries that a limit lets the buffer keep: the integer part of a finite
  limit that is not negative, nothing below zero, and no bound (\<open>None\<close>) for \<^verbatim>\<open>NaN\<close> and
  \<^verbatim>\<open>Infinity\<close>. A list truncated to a limit keeps that many of its last elements.
\<close>

fun capacity :: "number \<Rightarrow> nat option" where
  "capacity (Num r) = Some (nat \<lfloor>r\<rfloor>)"
| "capacity NaN = None"
| "capacity PosInfinity = None"
| "capacity NegInfinity = Some 0"

definition truncated :: "number \<Rightarrow> 'a list \<Rightarrow> 'a list" where
  "truncated m xs = (case capacity m of None \<Rightarrow> xs | Some k \<Rightarrow> drop (length xs - k) xs)"


subsection \<open>Auxiliary notions for the capture proofs\<close>

definition buffer :: "nat \<Rightarrow> world \<Rightarrow> LogEntry list" where
  "buffer i w = heap w ! logs (captures w ! i)"

definition wf_world :: "nat \<Rightarrow> world \<Rightarrow> bool" where
  "wf_world i w = (i < length (captures w) \<and> logs (captures w ! i) < length (heap w))"

definition wrappers :: "nat \<Rightarrow> console" where
  "wrappers i = \<lparr> log = Wrapper i Log, warn = Wrapper i Warn, error = Wrapper i Error \<rparr>"

definition hosts :: "nat \<Rightarrow> nat \<Rightarrow> nat \<Rightarrow> console" where
  "hosts f g h = \<lparr> log = Host f, warn = Host g, error = Host h \<rparr>"

definition host_of :: "nat \<Rightarrow> nat \<Rightarrow> nat \<Rightarrow> level \<Rightarrow> nat" where
  "host_of f g h l = (case l of Log \<Rightarrow> f | Warn \<Rightarrow> g | Error \<Rightarrow> h)"

definition fwd :: "nat \<Rightarrow> nat \<Rightarrow> nat \<Rightarrow> call \<Rightarrow> nat \<times> arg list" where
  "fwd f g h c = (case c of (l, args, now) \<Rightarrow> (host_of f g h l, args))"

definition older :: "nat \<Rightarrow> console_fn \<Rightarrow> bool" where
  "older n fn = (case fn of Host f \<Rightarrow> True | Wrapper j l \<Rightarrow> j < n)"

definition console_older :: "nat \<Rightarrow> console \<Rightarrow> bool" where
  "console_older n c = (older n (log c) \<and> older n (warn c) \<and> older n (error c))"

definition descending :: "world \<Rightarrow> bool" where
  "descending w =
     ((\<forall>i < length (captures w). console_older i (originalConsole (captures w ! i))) \<and>
      console_older (length (captures w)) (console w))"

subsection \<open>Concrete arguments and runs of the capture\<close>



definition string_arg :: "string \<Rightarrow> arg" where
  "string_arg s = plain (Prim s)"

section \<open>Requests, questions and sessions (src/types/index.ts, the component's own types)\<close>

text \<open>\<^verbatim>\<open>ErrorInfo\<close>, the value the error capture keeps and \<^verbatim>\<open>getError()\<close> returns.\<close>

record ErrorInfo =
  ei_message :: string
  ei_stack :: string
  fileName :: "string option"
  lineNumber :: "int option"
  columnNumber :: "int option"

datatype QuestionType = TextQuestion | MultipleChoice | Boolean

record Question =
  q_id :: string
  q_text :: string
  q_type :: QuestionType
  options :: "string list option"
  required :: bool

datatype DebugMode = Wait | Backlog

datatype BacklogPriority = Critical | High | Medium | Low

text \<open>
  \<^verbatim>\<open>SubmitDebugReportRequest\<close>. The object that \<^verbatim>\<open>handleSend\<close> builds refers to the array
  of logs (\<open>'l\<close> is an address); the body that \<^verbatim>\<open>JSON.stringify\<close> puts on the wire holds the
  entries themselves (\<open>'l\<close> is a list of entries). An optional field that is undefined is
  \<open>None\<close>.
\<close>

record 'l SubmitDebugReportRequest =
  req_logs :: 'l
  req_error :: "ErrorInfo option"
  req_screenshot :: "string option"
  req_comment :: string
  req_url :: string
  req_projectPath :: "string option"
  req_timestamp :: int
  req_userAgent :: "string option"
  req_mode :: "DebugMode option"
  req_priority :: "BacklogPriority option"

definition JSON_stringify_request ::
  "heap \<Rightarrow> addr SubmitDebugReportRequest \<Rightarrow> LogEntry list SubmitDebugReportRequest" where
  "JSON_stringify_request h r =
     \<lparr> req_logs = h ! req_logs r,
       req_error = req_error r,
       req_screenshot = req_screenshot r,
       req_comment = req_comment r,
       req_url = req_url r,
       req_projectPath = req_projectPath r,
       req_timestamp = req_timestamp r,
       req_userAgent = req_userAgent r,
       req_mode = req_mode r,
       req_priority = req_priority r \<rparr>"

record SubmitAnswersRequest =
  sa_sessionId :: string
  sa_answers :: "(string \<times> string) list"

text \<open>A request handed to \<^verbatim>\<open>fetch\<close>: the URL and the JSON body (both are POSTs).\<close>

datatype http_body =
    DebugReport "LogEntry list SubmitDebugReportRequest"
  | Answers SubmitAnswersRequest

record http_request =
  http_url :: string
  http_body :: http_body

text \<open>
  What a \<^verbatim>\<open>fetch\<close> comes to. Either the promise rejects with a value (the network call
  cannot complete), or there is a response with its \<^verbatim>\<open>ok\<close> flag and \<^verbatim>\<open>statusText\<close>; the
  third component is what \<^verbatim>\<open>(await response.json()).data\<close> evaluates to: \<open>Inl e\<close> when
  that throws \<open>e\<close> (the body is no JSON, or the parsed value has no properties), \<open>Inr d\<close>
  when it yields \<open>d\<close>.
\<close>

datatype 'a fetch_outcome =
    Rejected jsval
  | Response bool string "jsval + 'a"

text \<open>
  \<^verbatim>\<open>new Error(msg)\<close> for a non-empty message: \<^verbatim>\<open>JSON.stringify\<close> gives \<^verbatim>\<open>{}\<close> (an error has no
  enumerable property of its own) and \<^verbatim>\<open>String\<close> gives \<^verbatim>\<open>Error: msg\<close>. The text that the
  engine puts in \<^verbatim>\<open>stack\<close> is not modelled; no handler below reads it.
\<close>

definition new_Error :: "string \<Rightarrow> jsval" where
  "new_Error msg = Err (Some ''{}'') (''Error: '' @ msg) None"

text \<open>
  The data of a successful report response, as the component reads it
  (\<^verbatim>\<open>response?.reportId\<close>, \<^verbatim>\<open>response?.sessionId\<close>): every field may be missing, and
  \<^verbatim>\<open>result.data\<close> itself may be undefined (\<open>None\<close>).
\<close>

record report_data =
  rd_reportId :: "string option"
  rd_timestamp :: "int option"
  rd_sessionId :: "string option"
  rd_backlogItemId :: "string option"

section \<open>API client (src/api/client.ts)\<close>

text \<open>
  \<^verbatim>\<open>submitDebugReport\<close> after its \<^verbatim>\<open>fetch\<close> has come to an outcome: \<open>Inl\<close> is the value the
  returned promise rejects with, \<open>Inr\<close> the value it resolves to.
\<close>

fun submitDebugReport_result :: "report_data option fetch_outcome \<Rightarrow> jsval + report_data option" where
  "submitDebugReport_result (Rejected e) = Inl e"
| "submitDebugReport_result (Response ok statusText body) =
     (if \<not> ok then Inl (new_Error (''Failed to submit debug report: '' @ statusText))
      else body)"

text \<open>\<^verbatim>\<open>submitAnswers\<close> does not read the body of the response.\<close>

fun submitAnswers_result :: "'a fetch_outcome \<Rightarrow> jsval + unit" where
  "submitAnswers_result (Rejected e) = Inl e"
| "submitAnswers_result (Response ok statusText body) =
     (if \<not> ok then Inl (new_Error (''Failed to submit answers: '' @ statusText))
      else Inr ())"

section \<open>WebSocket client (src/api/websocket.ts, class WebSocketClient)\<close>

text \<open>
  The one callback that is ever registered is the component's handler of a question
  batch. \<^verbatim>\<open>ws\<close> is the socket the client holds (sockets are numbered in the order they
  are constructed), \<^verbatim>\<open>reconnectTimeout\<close> the handle \<^verbatim>\<open>setTimeout\<close> returned. A handle is a
  positive number in a browser and an object in Node, so a handle that is present is
  truthy.
\<close>

datatype callback = WidgetOnQuestions

record WebSocketClient =
  ws_url :: string
  ws :: "nat option"
  reconnectTimeout :: "nat option"
  onQuestionsCallback :: "callback option"

text \<open>
  The data of a message event, by what \<^verbatim>\<open>onmessage\<close> makes of it: \<^verbatim>\<open>JSON.parse\<close> throws
  the given error; or the parsed message has a \<^verbatim>\<open>type\<close> other than \<^verbatim>\<open>'questions'\<close>; or it
  is a \<^verbatim>\<open>QuestionsMessage\<close> with its session id and questions.
\<close>

datatype ws_data =
    Unparseable jsval
  | OtherMessage
  | QuestionsMessage string "Question list"

section \<open>The widget component (src/api/websocket.ts, function Widget)\<close>

datatype session_status = Pending | Answered | Timeout

record DebugSession =
  ds_id :: string
  ds_timestamp :: int
  ds_comment :: string
  ds_status :: session_status
  ds_reportId :: "string option"
  ds_sessionId :: "string option"

record StoredSettings =
  st_projectPath :: string
  st_debugMode :: DebugMode

text \<open>The fields of \<^verbatim>\<open>DebugWidgetConfig\<close> that the component and its collaborators read.\<close>

record DebugWidgetConfig =
  enabled :: bool
  mcpUrl :: string
  cfg_projectPath :: string
  hideScreenshot :: bool
  maxLogEntries :: "number option"

text \<open>
  The state variables of the component (its \<^verbatim>\<open>useState\<close> hooks). \<^verbatim>\<open>answers\<close> is a
  \<^verbatim>\<open>Record<string, string>\<close>, kept as the list of its entries in insertion order.
\<close>

record widget =
  isOpen :: bool
  showSettings :: bool
  comment :: string
  screenshot :: "string option"
  isCapturing :: bool
  isSending :: bool
  status :: string
  projectPath :: string
  debugMode :: DebugMode
  isWaitingForResponse :: bool
  sessions :: "DebugSession list"
  questions :: "Question list"
  sessionId :: "string option"
  answers :: "(string \<times> string) list"
  currentStep :: nat

text \<open>
  \<^verbatim>\<open>{...answers, [key]: v}\<close>: an existing key keeps its place and takes the new value, a
  new key goes last.
\<close>

fun assign :: "string \<Rightarrow> string \<Rightarrow> (string \<times> string) list \<Rightarrow> (string \<times> string) list" where
  "assign k v [] = [(k, v)]"
| "assign k v ((k', v') # kvs) = (if k' = k then (k, v) # kvs else (k', v') # assign k v kvs)"

text \<open>
  \<^verbatim>\<open>Object.entries\<close> lists the properties of an object in the order of its own keys:
  first the keys that are array indices (the decimal numerals without leading zero, below
  \<^verbatim>\<open>2^32 - 1\<close>) in ascending numeric order, then the other keys in the order they were
  created.
\<close>

definition digit_value :: "char \<Rightarrow> int" where
  "digit_value c = of_char c - of_char CHR ''0''"

definition numeral_value :: "string \<Rightarrow> int" where
  "numeral_value k = foldl (\<lambda>n c. 10 * n + digit_value c) 0 k"

definition array_index :: "string \<Rightarrow> bool" where
  "array_index k =
     (case k of
        [] \<Rightarrow> False
      | c # cs \<Rightarrow>
          list_all (\<lambda>d. d \<in> set ''0123456789'') k \<and>
          (c \<in> set ''123456789'' \<or> cs = []) \<and>
          numeral_value k < 4294967295)"

definition Object_entries :: "(string \<times> string) list \<Rightarrow> (string \<times> string) list" where
  "Object_entries kvs =
     sort_key (\<lambda>kv. numeral_value (fst kv)) (filter (\<lambda>kv. array_index (fst kv)) kvs) @
     filter (\<lambda>kv. \<not> array_index (fst kv)) kvs"

text \<open>\<^verbatim>\<open>x || undefined\<close> on a string that may be null: the empty string is falsy.\<close>

fun or_undefined :: "string option \<Rightarrow> string option" where
  "or_undefined None = None"
| "or_undefined (Some s) = (if s = [] then None else Some s)"

text \<open>A number in a template literal or under \<^verbatim>\<open>String\<close>: its decimal digits.\<close>

definition digit_char :: "nat \<Rightarrow> char" where
  "digit_char d = ''0123456789'' ! d"

fun decimal :: "nat \<Rightarrow> string" where
  "decimal n =
     (if n div 10 = 0 then [digit_char n] else decimal (n div 10) @ [digit_char (n mod 10)])"

declare decimal.simps [simp del]

definition number_to_string :: "int \<Rightarrow> string" where
  "number_to_string i = (if 0 \<le> i then decimal (nat i) else CHR ''-'' # decimal (nat (- i)))"

text \<open>
  The component is a function that the framework runs at every render. Its body
  constructs the collaborators anew each time
  (\<^verbatim>\<open>const consoleCapture = new ConsoleCapture(config.maxLogEntries)\<close>, likewise
  \<^verbatim>\<open>errorCapture\<close>, \<^verbatim>\<open>apiClient\<close>, \<^verbatim>\<open>wsClient\<close>), and the handlers it defines refer to the
  objects of that render. The effect with the empty dependency list runs once, after the
  first render, and refers to the objects of the first render. The objects of a render
  that the handlers use are kept by their numbers. (The API client has no state. Of the
  socket clients only the one of the first render is ever used: by the effect.)
\<close>

record render_objects =
  consoleCapture :: nat
  errorCapture :: nat

text \<open>
  Everything the component and its collaborators read and write: the capture world, the
  \<^verbatim>\<open>capturedError\<close> of each error capture object and whether the listeners (of the first
  one) are installed, the socket client, the pending timers of \<^verbatim>\<open>setTimeout\<close> (handle and
  delay in ms) with the next handle, the sockets constructed so far (by URL), the
  requests handed to \<^verbatim>\<open>fetch\<close>, the two keys of \<^verbatim>\<open>localStorage\<close> (and whether \<^verbatim>\<open>setItem\<close>
  succeeds), the page's URL and user agent, the configuration, the objects of the latest
  render, and the component's state.
\<close>

record system =
  world :: world
  errorCaptures :: "ErrorInfo option list"
  errorListening :: bool
  wsClient :: WebSocketClient
  timers :: "(nat \<times> nat) list"
  nextTimer :: nat
  sockets :: "string list"
  requests :: "http_request list"
  storedSettings :: "StoredSettings option"
  storedSessions :: "DebugSession list option"
  storageWritable :: bool
  location_href :: string
  userAgent :: string
  config :: DebugWidgetConfig
  rendered :: render_objects
  ui :: widget

subsection \<open>Console calls made by the widget's own code\<close>

text \<open>
  A console call of the page. Whether it returns or throws is the matter of the code that
  made the call; the system goes on in the world the call leaves.
\<close>

definition console_called :: "level \<Rightarrow> arg list \<Rightarrow> int \<Rightarrow> system \<Rightarrow> system" where
  "console_called l args now s = s\<lparr> world := snd (console_call l args now (world s)) \<rparr>"

text \<open>
  The widget's code logs through the global \<^verbatim>\<open>console\<close> like any other code of the page,
  so its calls are captured while the wrappers are installed. Its arguments are string
  literals, numbers and the values it has caught, all well-behaved: such a call returns
  (\<open>plain_call_returns\<close> below), and the handler that made it goes on.
\<close>

definition log_to_console :: "level \<Rightarrow> jsval list \<Rightarrow> int \<Rightarrow> system \<Rightarrow> system" where
  "log_to_console l vs now s = console_called l (map plain vs) now s"

subsection \<open>Methods of the socket client\<close>

text \<open>
  \<^verbatim>\<open>scheduleReconnect\<close>: return when a timer is pending, else \<^verbatim>\<open>setTimeout(..., 5000)\<close> and
  keep the handle.
\<close>

definition scheduleReconnect :: "system \<Rightarrow> system" where
  "scheduleReconnect s =
     (case reconnectTimeout (wsClient s) of
        Some h \<Rightarrow> s
      | None \<Rightarrow>
          s\<lparr> timers := timers s @ [(nextTimer s, 5000)],
             nextTimer := Suc (nextTimer s),
             wsClient := (wsClient s)\<lparr> reconnectTimeout := Some (nextTimer s) \<rparr> \<rparr>)"

text \<open>\<^verbatim>\<open>url.replace(/^http/, 'ws')\<close>.\<close>

definition replace_http :: "string \<Rightarrow> string" where
  "replace_http u = (if take 4 u = ''http'' then ''ws'' @ drop 4 u else u)"

text \<open>
  \<^verbatim>\<open>connect\<close>: construct a socket and install the four handlers on it, or, when the
  constructor throws \<open>e\<close> (the first argument is \<open>Some e\<close>), log and schedule a
  reconnection.
\<close>

definition connect :: "jsval option \<Rightarrow> int \<Rightarrow> system \<Rightarrow> system" where
  "connect throws now s =
     (case throws of
        None \<Rightarrow>
          s\<lparr> sockets := sockets s @ [replace_http (ws_url (wsClient s))],
             wsClient := (wsClient s)\<lparr> ws := Some (length (sockets s)) \<rparr> \<rparr>
      | Some e \<Rightarrow>
          scheduleReconnect
            (log_to_console Error [Prim ''[DebugWidget] Failed to connect WebSocket:'', e] now s))"

text \<open>
  \<^verbatim>\<open>disconnect\<close>: clear a pending timer, close and drop the socket. (The socket's close
  event arrives later, as an event of its own.)
\<close>

definition clearTimeout :: "nat \<Rightarrow> system \<Rightarrow> system" where
  "clearTimeout h s = s\<lparr> timers := filter (\<lambda>t. fst t \<noteq> h) (timers s) \<rparr>"

definition disconnect :: "system \<Rightarrow> system" where
  "disconnect s =
     (let s1 = (case reconnectTimeout (wsClient s) of
                  Some h \<Rightarrow> (clearTimeout h s)\<lparr> wsClient := (wsClient s)\<lparr> reconnectTimeout := None \<rparr> \<rparr>
                | None \<Rightarrow> s)
      in case ws (wsClient s1) of
           Some i \<Rightarrow> s1\<lparr> wsClient := (wsClient s1)\<lparr> ws := None \<rparr> \<rparr>
         | None \<Rightarrow> s1)"

definition onQuestions :: "callback \<Rightarrow> system \<Rightarrow> system" where
  "onQuestions cb s = s\<lparr> wsClient := (wsClient s)\<lparr> onQuestionsCallback := Some cb \<rparr> \<rparr>"

text \<open>The handlers \<^verbatim>\<open>connect\<close> installs on a socket.\<close>

definition ws_onopen :: "int \<Rightarrow> system \<Rightarrow> system" where
  "ws_onopen now s = log_to_console Log [Prim ''[DebugWidget] WebSocket connected''] now s"

definition ws_onclose :: "int \<Rightarrow> system \<Rightarrow> system" where
  "ws_onclose now s =
     scheduleReconnect (log_to_console Log [Prim ''[DebugWidget] WebSocket disconnected''] now s)"

definition ws_onerror :: "jsval \<Rightarrow> int \<Rightarrow> system \<Rightarrow> system" where
  "ws_onerror e now s = log_to_console Error [Prim ''[DebugWidget] WebSocket error:'', e] now s"

text \<open>The callback of the reconnection timer, run when the timer \<open>h\<close> is still pending.\<close>

definition timer_fired :: "nat \<Rightarrow> jsval option \<Rightarrow> int \<Rightarrow> system \<Rightarrow> system" where
  "timer_fired h throws now s =
     (if h \<in> set (map fst (timers s))
      then connect throws now
             ((clearTimeout h s)\<lparr> wsClient := (wsClient s)\<lparr> reconnectTimeout := None \<rparr> \<rparr>)
      else s)"

subsection \<open>The component's handlers\<close>

definition set_ui :: "(widget \<Rightarrow> widget) \<Rightarrow> system \<Rightarrow> system" where
  "set_ui f s = s\<lparr> ui := f (ui s) \<rparr>"

text \<open>
  The callback registered with \<^verbatim>\<open>wsClient.onQuestions\<close>: one log line, then six state
  setters.
\<close>

definition widget_onQuestions :: "string \<Rightarrow> Question list \<Rightarrow> int \<Rightarrow> system \<Rightarrow> system" where
  "widget_onQuestions sid qs now s =
     set_ui (\<lambda>u. u\<lparr> sessionId := Some sid,
                    questions := qs,
                    answers := [],
                    currentStep := 0,
                    isWaitingForResponse := False,
                    status := ''Questions received'' \<rparr>)
       (log_to_console Log
          [Prim ''Received questions from server:'', Prim (decimal (length qs))] now s)"

text \<open>
  \<^verbatim>\<open>onmessage\<close> with \<^verbatim>\<open>handleMessage\<close>: a parse error is logged and dropped; a message of
  another type is ignored; a questions message goes to the registered callback.
\<close>

definition ws_onmessage :: "ws_data \<Rightarrow> int \<Rightarrow> system \<Rightarrow> system" where
  "ws_onmessage d now s =
     (case d of
        Unparseable e \<Rightarrow>
          log_to_console Error [Prim ''[DebugWidget] Failed to parse WebSocket message:'', e] now s
      | OtherMessage \<Rightarrow> s
      | QuestionsMessage sid qs \<Rightarrow>
          (case onQuestionsCallback (wsClient s) of
             None \<Rightarrow> s
           | Some WidgetOnQuestions \<Rightarrow> widget_onQuestions sid qs now s))"

text \<open>\<^verbatim>\<open>saveSessions\<close>: keep the last 50, write them; a failing write is swallowed.\<close>

definition saveSessions :: "DebugSession list \<Rightarrow> system \<Rightarrow> system" where
  "saveSessions ss s =
     (if storageWritable s then s\<lparr> storedSessions := Some (drop (length ss - 50) ss) \<rparr> else s)"

definition saveStoredSettings :: "StoredSettings \<Rightarrow> system \<Rightarrow> system" where
  "saveStoredSettings st s = (if storageWritable s then s\<lparr> storedSettings := Some st \<rparr> else s)"

text \<open>
  \<^verbatim>\<open>handleSend\<close> is an async function. It runs in two parts: up to the \<^verbatim>\<open>await\<close> of
  \<^verbatim>\<open>submitDebugReport\<close> (whose own first part serialises the request and calls \<^verbatim>\<open>fetch\<close>),
  and from the settled promise to the end. The second part reads the variables of the
  closure the first part ran in: the snapshot, the timestamp, and the component state of
  that render (\<^verbatim>\<open>comment\<close>, \<^verbatim>\<open>debugMode\<close>, \<^verbatim>\<open>sessions\<close>). \<^verbatim>\<open>consoleCapture\<close> and
  \<^verbatim>\<open>errorCapture\<close> are the objects of the render the handler belongs to, the latest one.
\<close>

record pending_send =
  ps_currentLogs :: addr
  ps_timestamp :: int
  ps_comment :: string
  ps_debugMode :: DebugMode
  ps_sessions :: "DebugSession list"

definition handleSend_begin :: "int \<Rightarrow> system \<Rightarrow> pending_send \<times> system" where
  "handleSend_begin now s =
     (let s1 = set_ui (\<lambda>u. u\<lparr> isSending := True, status := ''Sending...'' \<rparr>) s;
          (currentLogs, w) = getLogs (consoleCapture (rendered s1)) (world s1);
          s2 = s1\<lparr> world := w \<rparr>;
          data = \<lparr> req_logs = currentLogs,
                   req_error = errorCaptures s2 ! errorCapture (rendered s2),
                   req_screenshot = or_undefined (screenshot (ui s)),
                   req_comment = comment (ui s),
                   req_url = location_href s2,
                   req_projectPath = or_undefined (Some (projectPath (ui s))),
                   req_timestamp = now,
                   req_userAgent = Some (userAgent s2),
                   req_mode = Some (debugMode (ui s)),
                   req_priority = Some Medium \<rparr>;
          s3 = s2\<lparr> requests := requests s2 @
                    [\<lparr> http_url = mcpUrl (config s2) @ ''/api/debug'',
                       http_body = DebugReport (JSON_stringify_request (heap (world s2)) data) \<rparr>] \<rparr>
      in (\<lparr> ps_currentLogs = currentLogs,
            ps_timestamp = now,
            ps_comment = comment (ui s),
            ps_debugMode = debugMode (ui s),
            ps_sessions = sessions (ui s) \<rparr>, s3))"

definition newSession :: "pending_send \<Rightarrow> report_data option \<Rightarrow> DebugSession" where
  "newSession p response =
     \<lparr> ds_id = ''session-'' @ number_to_string (ps_timestamp p),
       ds_timestamp = ps_timestamp p,
       ds_comment = (if ps_comment p = [] then ''No comment'' else ps_comment p),
       ds_status = Pending,
       ds_reportId = (case response of None \<Rightarrow> None | Some d \<Rightarrow> rd_reportId d),
       ds_sessionId = (case response of None \<Rightarrow> None | Some d \<Rightarrow> rd_sessionId d) \<rparr>"

definition handleSend_settle ::
  "pending_send \<Rightarrow> report_data option fetch_outcome \<Rightarrow> int \<Rightarrow> system \<Rightarrow> system" where
  "handleSend_settle p outcome now s =
     set_ui (\<lambda>u. u\<lparr> isSending := False \<rparr>)
       (case submitDebugReport_result outcome of
          Inr response \<Rightarrow>
            (let updatedSessions = ps_sessions p @ [newSession p response];
                 s1 = saveSessions updatedSessions
                        (set_ui (\<lambda>u. u\<lparr> sessions := updatedSessions \<rparr>) s);
                 s2 = set_ui (\<lambda>u. u\<lparr> comment := [], screenshot := None \<rparr>) s1
             in if ps_debugMode p = Wait
                then set_ui (\<lambda>u. u\<lparr> isWaitingForResponse := True,
                                    status := ''Waiting for response...'' \<rparr>) s2
                else set_ui (\<lambda>u. u\<lparr> status := ''Added to backlog'' \<rparr>) s2)
        | Inl e \<Rightarrow>
            set_ui (\<lambda>u. u\<lparr> status := ''Error: '' @ to_String e, isWaitingForResponse := False \<rparr>)
              (log_to_console Error [Prim ''Send error:'', e] now s))"

text \<open>
  \<^verbatim>\<open>handleSubmitAnswers\<close>, in the same two parts. \<^verbatim>\<open>if (!sessionId) return\<close> leaves on
  \<^verbatim>\<open>null\<close> and on the empty string. The second part reads the \<^verbatim>\<open>sessionId\<close> and the
  \<^verbatim>\<open>sessions\<close> of its closure.
\<close>

record pending_answers =
  pa_sessionId :: string
  pa_sessions :: "DebugSession list"

definition handleSubmitAnswers_begin :: "system \<Rightarrow> pending_answers option \<times> system" where
  "handleSubmitAnswers_begin s =
     (case or_undefined (sessionId (ui s)) of
        None \<Rightarrow> (None, s)
      | Some sid \<Rightarrow>
          (Some \<lparr> pa_sessionId = sid, pa_sessions = sessions (ui s) \<rparr>,
           s\<lparr> requests := requests s @
                 [\<lparr> http_url = mcpUrl (config s) @ ''/api/questions/answer'',
                    http_body = Answers \<lparr> sa_sessionId = sid,
                                          sa_answers = Object_entries (answers (ui s)) \<rparr> \<rparr>] \<rparr>))"

definition handleSubmitAnswers_settle ::
  "pending_answers \<Rightarrow> unit fetch_outcome \<Rightarrow> system \<Rightarrow> system" where
  "handleSubmitAnswers_settle p outcome s =
     (case submitAnswers_result outcome of
        Inr _ \<Rightarrow>
          (let updatedSessions =
                 map (\<lambda>x. if ds_sessionId x = Some (pa_sessionId p)
                           then x\<lparr> ds_status := Answered \<rparr> else x) (pa_sessions p);
               s1 = saveSessions updatedSessions
                      (set_ui (\<lambda>u. u\<lparr> sessions := updatedSessions \<rparr>) s)
           in set_ui (\<lambda>u. u\<lparr> questions := [],
                               sessionId := None,
                               isWaitingForResponse := False,
                               status := ''Answers submitted'' \<rparr>) s1)
      | Inl e \<Rightarrow> set_ui (\<lambda>u. u\<lparr> status := ''Failed to submit answers'' \<rparr>) s)"

text \<open>\<^verbatim>\<open>handleCaptureScreenshot\<close>, before and after the \<^verbatim>\<open>await\<close> of the rasteriser.\<close>

definition handleCaptureScreenshot_begin :: "system \<Rightarrow> system" where
  "handleCaptureScreenshot_begin s = set_ui (\<lambda>u. u\<lparr> isCapturing := True \<rparr>) s"

definition handleCaptureScreenshot_settle :: "jsval + string \<Rightarrow> int \<Rightarrow> system \<Rightarrow> system" where
  "handleCaptureScreenshot_settle r now s =
     set_ui (\<lambda>u. u\<lparr> isCapturing := False \<rparr>)
       (case r of
          Inr ss \<Rightarrow> set_ui (\<lambda>u. u\<lparr> screenshot := Some ss, status := ''Screenshot captured'' \<rparr>) s
        | Inl e \<Rightarrow>
            set_ui (\<lambda>u. u\<lparr> status := ''Screenshot failed'' \<rparr>)
              (log_to_console Error [Prim ''Screenshot error:'', e] now s))"

text \<open>
  The effect that runs once when the component is mounted, and its cleanup; both use the
  objects of the first render. The argument of \<open>mount\<close> says whether the socket
  constructor throws.
\<close>

definition first_render :: render_objects where
  "first_render = \<lparr> consoleCapture = 0, errorCapture = 0 \<rparr>"

definition mount :: "jsval option \<Rightarrow> int \<Rightarrow> system \<Rightarrow> system" where
  "mount throws now s =
     onQuestions WidgetOnQuestions
       (connect throws now
          (s\<lparr> world := start (consoleCapture first_render) (world s), errorListening := True \<rparr>))"

definition unmount :: "system \<Rightarrow> system" where
  "unmount s =
     disconnect
       (s\<lparr> world := stop (consoleCapture first_render) (world s), errorListening := False \<rparr>)"

text \<open>
  The error capture's two listeners (src/capture/error-capture.ts), methods of the
  object of the first render. An error event is given by its message,
  \<^verbatim>\<open>event.error?.stack\<close>, file name, line and column; a rejection by \<^verbatim>\<open>reason?.message\<close>,
  \<^verbatim>\<open>String(reason)\<close> and \<^verbatim>\<open>reason?.stack\<close>.
\<close>

definition set_capturedError :: "ErrorInfo \<Rightarrow> system \<Rightarrow> system" where
  "set_capturedError e s =
     s\<lparr> errorCaptures := (errorCaptures s)[errorCapture first_render := Some e] \<rparr>"

definition handleError ::
  "string \<Rightarrow> string option \<Rightarrow> string option \<Rightarrow> int option \<Rightarrow> int option \<Rightarrow> system \<Rightarrow> system" where
  "handleError msg st file line col s =
     set_capturedError
       \<lparr> ei_message = msg,
         ei_stack = (case or_undefined st of None \<Rightarrow> [] | Some t \<Rightarrow> t),
         fileName = file, lineNumber = line, columnNumber = col \<rparr> s"

definition handleRejection :: "string option \<Rightarrow> string \<Rightarrow> string option \<Rightarrow> system \<Rightarrow> system" where
  "handleRejection msg str st s =
     set_capturedError
       \<lparr> ei_message = ''Unhandled Promise Rejection: '' @
           (case or_undefined msg of None \<Rightarrow> str | Some m \<Rightarrow> m),
         ei_stack = (case or_undefined st of None \<Rightarrow> [] | Some t \<Rightarrow> t),
         fileName = None, lineNumber = None, columnNumber = None \<rparr> s"

subsection \<open>The component at its first render\<close>

text \<open>
  \<^verbatim>\<open>loadStoredSettings\<close> and \<^verbatim>\<open>loadSessions\<close> read \<^verbatim>\<open>localStorage\<close>; a missing or unparsable
  item (\<open>None\<close>) gives the defaults. The initial values of the state variables follow the
  \<^verbatim>\<open>useState\<close> calls. The initial system is the page after the first render, on which the
  first capture objects were constructed. Timer handles start at 1.
\<close>

definition loadStoredSettings :: "StoredSettings option \<Rightarrow> StoredSettings" where
  "loadStoredSettings st =
     (case st of None \<Rightarrow> \<lparr> st_projectPath = [], st_debugMode = Wait \<rparr> | Some x \<Rightarrow> x)"

definition loadSessions :: "DebugSession list option \<Rightarrow> DebugSession list" where
  "loadSessions st = (case st of None \<Rightarrow> [] | Some x \<Rightarrow> x)"

definition initial_widget :: "DebugWidgetConfig \<Rightarrow> StoredSettings option \<Rightarrow> DebugSession list option \<Rightarrow> widget" where
  "initial_widget cfg st ss =
     \<lparr> isOpen = False,
       showSettings = False,
       comment = [],
       screenshot = None,
       isCapturing = False,
       isSending = False,
       status = [],
       projectPath = (if cfg_projectPath cfg \<noteq> [] then cfg_projectPath cfg
                      else st_projectPath (loadStoredSettings st)),
       debugMode = st_debugMode (loadStoredSettings st),
       isWaitingForResponse = False,
       sessions = loadSessions ss,
       questions = [],
       sessionId = None,
       answers = [],
       currentStep = 0 \<rparr>"

record page =
  host_log :: nat
  host_warn :: nat
  host_error :: nat
  page_settings :: "StoredSettings option"
  page_sessions :: "DebugSession list option"
  page_storageWritable :: bool
  page_href :: string
  page_userAgent :: string

definition initial :: "DebugWidgetConfig \<Rightarrow> page \<Rightarrow> system" where
  "initial cfg pg =
     \<lparr> world = snd (new_ConsoleCapture (maxLogEntries cfg)
                      (host_world (host_log pg) (host_warn pg) (host_error pg))),
       errorCaptures = [None],
       errorListening = False,
       wsClient = \<lparr> ws_url = mcpUrl cfg, ws = None, reconnectTimeout = None,
                    onQuestionsCallback = None \<rparr>,
       timers = [],
       nextTimer = 1,
       sockets = [],
       requests = [],
       storedSettings = page_settings pg,
       storedSessions = page_sessions pg,
       storageWritable = page_storageWritable pg,
       location_href = page_href pg,
       userAgent = page_userAgent pg,
       config = cfg,
       rendered = first_render,
       ui = initial_widget cfg (page_settings pg) (page_sessions pg) \<rparr>"

subsection \<open>What is rendered\<close>

text \<open>
  The component renders nothing when \<^verbatim>\<open>config.enabled\<close> is false; the panel with the
  comment field and the two buttons under \<^verbatim>\<open>isOpen\<close>; the question block of the Q&A modal
  under \<^verbatim>\<open>questions.length > 0\<close> and \<^verbatim>\<open>currentStep < questions.length\<close>.
\<close>

definition panel_rendered :: "system \<Rightarrow> bool" where
  "panel_rendered s = (enabled (config s) \<and> isOpen (ui s))"

definition settings_rendered :: "system \<Rightarrow> bool" where
  "settings_rendered s = (enabled (config s) \<and> showSettings (ui s))"

definition question_rendered :: "system \<Rightarrow> bool" where
  "question_rendered s =
     (enabled (config s) \<and> questions (ui s) \<noteq> [] \<and> currentStep (ui s) < length (questions (ui s)))"

text \<open>
  The input of the current question: a text field for \<^verbatim>\<open>'text'\<close>, one radio button per
  option for \<^verbatim>\<open>'multipleChoice'\<close>, nothing for \<^verbatim>\<open>'boolean'\<close>.
\<close>

definition answer_accepted :: "Question \<Rightarrow> string \<Rightarrow> bool" where
  "answer_accepted q v =
     (case q_type q of
        TextQuestion \<Rightarrow> True
      | MultipleChoice \<Rightarrow> (case options q of None \<Rightarrow> False | Some os \<Rightarrow> v \<in> set os)
      | Boolean \<Rightarrow> False)"

text \<open>
  The send button is disabled under \<^verbatim>\<open>isSending || isWaitingForResponse\<close>, and its label
  is chosen by the chain \<^verbatim>\<open>isSending ? 'Sending...' : isWaitingForResponse ? 'Waiting for
  response...' : ...\<close>: the report flow is sending, else awaiting the peer, else idle.
\<close>

datatype send_state = Idle | SendingReport | AwaitingPeer

definition send_state :: "widget \<Rightarrow> send_state" where
  "send_state u =
     (if isSending u then SendingReport
      else if isWaitingForResponse u then AwaitingPeer
      else Idle)"

subsection \<open>Events\<close>

text \<open>
  Everything that can happen to the mounted component: calls and failures of the host
  page, the socket's events and the reconnection timer, the user's actions on what is
  rendered, and the settling of the three awaited promises. A settled send or submission
  carries the closure of the handler's first part.
\<close>

datatype event =
    ConsoleCalled level "arg list"
  | ErrorEvent string "string option" "string option" "int option" "int option"
  | RejectionEvent "string option" string "string option"
  | Mounted "jsval option"
  | Unmounted
  | SocketOpened
  | SocketMessage ws_data
  | SocketClosed
  | SocketErrored jsval
  | TimerFired nat "jsval option"
  | ToggleOpen
  | OpenSettings
  | CloseSettings
  | SaveSettings
  | InputComment string
  | InputProjectPath string
  | SelectDebugMode DebugMode
  | ClickCaptureScreenshot
  | ScreenshotSettled "jsval + string"
  | ClickSend
  | SendSettled pending_send "report_data option fetch_outcome"
  | InputAnswer string
  | ClickBack
  | ClickNext
  | ClickSubmitAnswers
  | AnswersSettled pending_answers "unit fetch_outcome"

text \<open>What the handler of an event does to the system.\<close>

fun handle :: "int \<Rightarrow> event \<Rightarrow> system \<Rightarrow> system" where
  "handle now (ConsoleCalled l args) s = console_called l args now s"
| "handle now (ErrorEvent msg st file line col) s =
     (if errorListening s then handleError msg st file line col s else s)"
| "handle now (RejectionEvent msg str st) s =
     (if errorListening s then handleRejection msg str st s else s)"
| "handle now (Mounted throws) s = mount throws now s"
| "handle now Unmounted s = unmount s"
| "handle now SocketOpened s = ws_onopen now s"
| "handle now (SocketMessage d) s = ws_onmessage d now s"
| "handle now SocketClosed s = ws_onclose now s"
| "handle now (SocketErrored e) s = ws_onerror e now s"
| "handle now (TimerFired h throws) s = timer_fired h throws now s"
| "handle now ToggleOpen s =
     (if enabled (config s) then set_ui (\<lambda>u. u\<lparr> isOpen := \<not> isOpen u \<rparr>) s else s)"
| "handle now OpenSettings s =
     (if panel_rendered s then set_ui (\<lambda>u. u\<lparr> showSettings := True \<rparr>) s else s)"
| "handle now CloseSettings s =
     (if settings_rendered s then set_ui (\<lambda>u. u\<lparr> showSettings := False \<rparr>) s else s)"
| "handle now SaveSettings s =
     (if settings_rendered s
      then set_ui (\<lambda>u. u\<lparr> showSettings := False, status := ''Settings saved'' \<rparr>)
             (saveStoredSettings
                \<lparr> st_projectPath = projectPath (ui s), st_debugMode = debugMode (ui s) \<rparr> s)
      else s)"
| "handle now (InputComment v) s =
     (if panel_rendered s then set_ui (\<lambda>u. u\<lparr> comment := v \<rparr>) s else s)"
| "handle now (InputProjectPath v) s =
     (if settings_rendered s then set_ui (\<lambda>u. u\<lparr> projectPath := v \<rparr>) s else s)"
| "handle now (SelectDebugMode m) s =
     (if settings_rendered s then set_ui (\<lambda>u. u\<lparr> debugMode := m \<rparr>) s else s)"
| "handle now ClickCaptureScreenshot s =
     (if panel_rendered s \<and> \<not> hideScreenshot (config s) \<and> \<not> isCapturing (ui s)
      then handleCaptureScreenshot_begin s else s)"
| "handle now (ScreenshotSettled r) s = handleCaptureScreenshot_settle r now s"
| "handle now ClickSend s =
     (if panel_rendered s \<and> \<not> (isSending (ui s) \<or> isWaitingForResponse (ui s))
      then snd (handleSend_begin now s) else s)"
| "handle now (SendSettled p outcome) s = handleSend_settle p outcome now s"
| "handle now (InputAnswer v) s =
     (if question_rendered s \<and> answer_accepted (questions (ui s) ! currentStep (ui s)) v
      then set_ui (\<lambda>u. u\<lparr> answers := assign (q_id (questions u ! currentStep u)) v (answers u) \<rparr>) s
      else s)"
| "handle now ClickBack s =
     (if question_rendered s \<and> currentStep (ui s) > 0
      then set_ui (\<lambda>u. u\<lparr> currentStep := currentStep u - 1 \<rparr>) s else s)"
| "handle now ClickNext s =
     (if question_rendered s \<and> currentStep (ui s) < length (questions (ui s)) - 1
      then set_ui (\<lambda>u. u\<lparr> currentStep := currentStep u + 1 \<rparr>) s else s)"
| "handle now ClickSubmitAnswers s =
     (if question_rendered s \<and> \<not> currentStep (ui s) < length (questions (ui s)) - 1
      then snd (handleSubmitAnswers_begin s) else s)"
| "handle now (AnswersSettled p outcome) s = handleSubmitAnswers_settle p outcome s"

text \<open>
  A render: the body of the component runs again and constructs a new
  \<^verbatim>\<open>ConsoleCapture\<close> and a new \<^verbatim>\<open>ErrorCapture\<close>; the handlers of what is rendered from now
  on refer to these.
\<close>

definition render :: "system \<Rightarrow> system" where
  "render s =
     (let (i, w) = new_ConsoleCapture (maxLogEntries (config s)) (world s)
      in s\<lparr> world := w,
            errorCaptures := errorCaptures s @ [None],
            rendered := \<lparr> consoleCapture = i, errorCapture = length (errorCaptures s) \<rparr> \<rparr>)"

text \<open>
  One event: its handler runs, and the framework renders the component again when a
  state variable has changed.
\<close>

definition step :: "int \<Rightarrow> event \<Rightarrow> system \<Rightarrow> system" where
  "step now e s = (let s' = handle now e s in if ui s' \<noteq> ui s then render s' else s')"

text \<open>A run: events with the times at which they happen, oldest first.\<close>

fun steps :: "(int \<times> event) list \<Rightarrow> system \<Rightarrow> system" where
  "steps [] s = s"
| "steps ((now, e) # es) s = steps es (step now e s)"

subsection \<open>Auxiliary notions for the proofs about the component\<close>

definition net :: "system \<Rightarrow> (nat \<times> nat) list \<times> nat \<times> string list \<times> WebSocketClient" where
  "net s = (timers s, nextTimer s, sockets s, wsClient s)"

definition timer_inv :: "system \<Rightarrow> bool" where
  "timer_inv s =
     (case net s of (ts, n, so, c) \<Rightarrow>
        ts = (case reconnectTimeout c of None \<Rightarrow> [] | Some h \<Rightarrow> [(h, 5000)]))"

definition registered :: "system \<Rightarrow> bool" where
  "registered s = (case net s of (ts, n, so, c) \<Rightarrow> onQuestionsCallback c = Some WidgetOnQuestions)"

definition is_send_settled :: "event \<Rightarrow> bool" where
  "is_send_settled e = (case e of SendSettled p outcome \<Rightarrow> True | _ \<Rightarrow> False)"

definition send_succeeds :: "report_data option fetch_outcome \<Rightarrow> bool" where
  "send_succeeds outcome = (case submitDebugReport_result outcome of Inr d \<Rightarrow> True | Inl e \<Rightarrow> False)"

definition raises_waiting :: "event \<Rightarrow> bool" where
  "raises_waiting e =
     (case e of SendSettled p outcome \<Rightarrow> ps_debugMode p = Wait \<and> send_succeeds outcome
              | _ \<Rightarrow> False)"

definition changes_comment :: "event \<Rightarrow> bool" where
  "changes_comment e =
     (case e of InputComment v \<Rightarrow> True
              | SendSettled p outcome \<Rightarrow> send_succeeds outcome
              | _ \<Rightarrow> False)"

definition world_inv :: "world \<Rightarrow> bool" where
  "world_inv w =
     (captures w \<noteq> [] \<and>
      (\<forall>i < length (captures w). logs (captures w ! i) < length (heap w)) \<and>
      (\<forall>i < length (captures w). 0 < i \<longrightarrow>
         heap w ! logs (captures w ! i) = [] \<and> logs (captures w ! i) \<noteq> logs (captures w ! 0)) \<and>
      (console w = wrappers 0 \<or> (\<exists>f g h. console w = hosts f g h)) \<and>
      (\<exists>f g h. originalConsole (captures w ! 0) = hosts f g h))"

definition report_logs :: "http_request \<Rightarrow> LogEntry list" where
  "report_logs r = (case http_body r of DebugReport d \<Rightarrow> req_logs d | Answers a \<Rightarrow> [])"

definition sys_inv :: "system \<Rightarrow> bool" where
  "sys_inv s =
     (world_inv (world s) \<and>
      consoleCapture (rendered s) < length (captures (world s)) \<and>
      (consoleCapture (rendered s) = 0 \<longrightarrow> \<not> isOpen (ui s)) \<and>
      list_all (\<lambda>r. report_logs r = []) (requests s))"

subsection \<open>Concrete configurations, pages and runs\<close>

definition example_config :: DebugWidgetConfig where
  "example_config =
     \<lparr> enabled = True, mcpUrl = ''http://localhost:4000'', cfg_projectPath = [],
       hideScreenshot = False, maxLogEntries = Some (Num 1000) \<rparr>"

definition example_page :: page where
  "example_page =
     \<lparr> host_log = 0, host_warn = 1, host_error = 2,
       page_settings = None, page_sessions = None, page_storageWritable = True,
       page_href = ''http://localhost:3000/'', page_userAgent = ''Mozilla/5.0'' \<rparr>"

definition q1 :: Question where
  "q1 = \<lparr> q_id = ''q1'', q_text = ''Why?'', q_type = TextQuestion, options = None,
          required = True \<rparr>"

definition q2 :: Question where
  "q2 = \<lparr> q_id = ''q2'', q_text = ''Which browser?'', q_type = TextQuestion, options = None,
          required = False \<rparr>"

definition opened :: system where
  "opened = steps [(0, Mounted None), (1, ToggleOpen)] (initial example_config example_page)"

definition asked :: system where
  "asked = step 2 (SocketMessage (QuestionsMessage ''s1'' [q1, q2])) opened"

definition peer_ok :: "report_data option fetch_outcome" where
  "peer_ok =
     Response True ''OK''
       (Inr (Some \<lparr> rd_reportId = Some ''r1'', rd_timestamp = Some 1000,
                     rd_sessionId = Some ''s1'', rd_backlogItemId = None \<rparr>))"

definition peer_rejects :: "report_data option fetch_outcome" where
  "peer_rejects = Response False ''Internal Server Error'' (Inr None)"

definition backlog_ready :: system where
  "backlog_ready =
     steps [(2, OpenSettings), (3, SelectDebugMode Backlog), (4, CloseSettings)] opened"

definition typed :: system where
  "typed = step 2 (InputComment ''it broke'') opened"

definition waiting :: system where
  "waiting = step 6 (SendSettled (fst (handleSend_begin 5 opened)) peer_ok) (step 5 ClickSend opened)"

definition logged :: "(int \<times> event) list" where
  "logged =
     [(0, Mounted None), (1, ConsoleCalled Log [string_arg ''a'']), (2, ConsoleCalled Warn [string_arg ''b'']),
      (3, ToggleOpen)]"

definition entry_a :: LogEntry where
  "entry_a = \<lparr> level = Log, message = ''a'', timestamp = 1, stack = None \<rparr>"

definition entry_b :: LogEntry where
  "entry_b = \<lparr> level = Warn, message = ''b'', timestamp = 2, stack = None \<rparr>"

definition entry_c :: LogEntry where
  "entry_c = \<lparr> level = Error, message = ''c'', timestamp = 6, stack = None \<rparr>"

section \<open>Properties of the console capture\<close>

lemma exceeds_capacity:
  "0 < n \<Longrightarrow> exceeds n m = (case capacity m of None \<Rightarrow> False | Some k \<Rightarrow> k < n)"
proof (cases m)
  case (Num r)
  assume n: "0 < n"
  have "(r < of_nat n) = (\<lfloor>r\<rfloor> < int n)"
    using floor_less_iff[of r "int n"] by simp
  also have "\<dots> = (nat \<lfloor>r\<rfloor> < n)" using n by linarith
  finally show ?thesis by (simp add: Num)
qed simp_all

lemma tl_drop_snoc: "n \<le> length xs \<Longrightarrow> tl (drop n xs @ [e]) = drop (Suc n) (xs @ [e])"
  by (metis drop_Suc drop_append diff_is_0_eq' drop_0 tl_drop)

lemma push_shift_truncated: "push_shift m e (truncated m xs) = truncated m (xs @ [e])"
proof (cases "capacity m")
  case None
  then show ?thesis
    by (simp add: push_shift_def truncated_def exceeds_capacity Let_def)
next
  case (Some k)
  show ?thesis
  proof (cases "k \<le> length xs")
    case True
    then have "push_shift m e (truncated m xs) = tl (drop (length xs - k) xs @ [e])"
      using Some by (simp add: push_shift_def truncated_def exceeds_capacity Let_def)
    also have "\<dots> = drop (Suc (length xs - k)) (xs @ [e])"
      by (rule tl_drop_snoc) simp
    finally show ?thesis using Some True by (simp add: truncated_def Suc_diff_le)
  next
    case False
    then show ?thesis
      using Some by (simp add: push_shift_def truncated_def exceeds_capacity Let_def)
  qed
qed

lemma truncated_Nil [simp]: "truncated m [] = []"
  by (simp add: truncated_def split: option.splits)

lemma console_get_wrappers: "console_get (wrappers i) l = Wrapper i l"
  by (cases l) (simp_all add: wrappers_def)

lemma console_get_hosts: "console_get (hosts f g h) l = Host (host_of f g h l)"
  by (cases l) (simp_all add: hosts_def host_of_def)


lemma call_wrapped_raise:
  assumes "console w = wrappers i" "make_entry l args now = Inl e"
  shows "console_call l args now w = (Some e, w)"
  using assms by (simp add: console_call_def console_get_wrappers captureLog_def)

lemma call_wrapped_return:
  assumes "console w = wrappers i" "wf_world i w" "originalConsole (captures w ! i) = hosts f g h"
    and "make_entry l args now = Inr x"
  shows "fst (console_call l args now w) = None"
    and "console (snd (console_call l args now w)) = wrappers i"
    and "wf_world i (snd (console_call l args now w))"
    and "captures (snd (console_call l args now w)) = captures w"
    and "buffer i (snd (console_call l args now w)) =
           push_shift (maxEntries (captures w ! i)) x (buffer i w)"
    and "forwarded (snd (console_call l args now w)) = forwarded w @ [(host_of f g h l, args)]"
  using assms
  by (simp_all add: console_call_def console_get_wrappers console_get_hosts captureLog_def Let_def
      wf_world_def buffer_def)

lemma calls_wrapped:
  assumes "console w = wrappers i" "wf_world i w" "originalConsole (captures w ! i) = hosts f g h"
    and "buffer i w = truncated (maxEntries (captures w ! i)) past"
  shows "fst (console_calls cs w) = map raised cs \<and>
         console (snd (console_calls cs w)) = wrappers i \<and>
         wf_world i (snd (console_calls cs w)) \<and>
         captures (snd (console_calls cs w)) = captures w \<and>
         buffer i (snd (console_calls cs w)) =
           truncated (maxEntries (captures w ! i)) (past @ recorded cs) \<and>
         forwarded (snd (console_calls cs w)) = forwarded w @ map (fwd f g h) (filter returns cs)"
  using assms
proof (induction cs arbitrary: w past)
  case Nil
  then show ?case by (simp add: recorded_def)
next
  case (Cons c cs)
  obtain l args now where c: "c = (l, args, now)" by (cases c)
  let ?w = "snd (console_call l args now w)"
  show ?case
  proof (cases "make_entry l args now")
    case (Inl e)
    have call: "console_call l args now w = (Some e, w)"
      by (rule call_wrapped_raise[OF Cons.prems(1) Inl])
    have c_facts: "raised (l, args, now) = Some e" "\<not> returns (l, args, now)"
      "recorded ((l, args, now) # cs) = recorded cs"
      by (simp_all add: raised_def returns_def recorded_def entry_of_def Inl)
    from Cons.IH[OF Cons.prems] show ?thesis
      by (simp add: c call c_facts split_def)
  next
    case (Inr x)
    note st = call_wrapped_return[OF Cons.prems(1,2,3) Inr]
    have c_facts: "raised (l, args, now) = None" "returns (l, args, now)"
      "recorded ((l, args, now) # cs) = x # recorded cs"
      by (simp_all add: raised_def returns_def recorded_def entry_of_def Inr)
    have orig: "originalConsole (captures ?w ! i) = hosts f g h"
      using Cons.prems(3) by (simp add: st)
    have buf: "buffer i ?w = truncated (maxEntries (captures ?w ! i)) (past @ [x])"
      by (simp add: st Cons.prems(4) push_shift_truncated)
    from Cons.IH[OF st(2) st(3) orig buf] show ?thesis
      by (simp add: c st c_facts split_def fwd_def)
  qed
qed

lemma fresh_facts:
  "wf_world 0 (fresh_capture f g h m)" "buffer 0 (fresh_capture f g h m) = []"
  "console (fresh_capture f g h m) = hosts f g h"
  "originalConsole (captures (fresh_capture f g h m) ! 0) = hosts f g h"
  "maxEntries (captures (fresh_capture f g h m) ! 0) = limit_of m"
  "forwarded (fresh_capture f g h m) = []"
  by (simp_all add: fresh_capture_def new_ConsoleCapture_def host_world_def alloc_def
      wf_world_def buffer_def hosts_def)

lemma start_facts:
  "console (start i w) = wrappers i" "wf_world j (start i w) = wf_world j w"
  "buffer j (start i w) = buffer j w" "captures (start i w) = captures w"
  "forwarded (start i w) = forwarded w" "heap (start i w) = heap w"
  by (simp_all add: start_def wrappers_def wf_world_def buffer_def)

lemma started_calls:
  "fst (console_calls cs (start 0 (fresh_capture f g h m))) = map raised cs"
  "wf_world 0 (snd (console_calls cs (start 0 (fresh_capture f g h m))))"
  "buffer 0 (snd (console_calls cs (start 0 (fresh_capture f g h m)))) =
     truncated (limit_of m) (recorded cs)"
  "forwarded (snd (console_calls cs (start 0 (fresh_capture f g h m)))) =
     map (fwd f g h) (filter returns cs)"
  "console (snd (console_calls cs (start 0 (fresh_capture f g h m)))) = wrappers 0"
  "captures (snd (console_calls cs (start 0 (fresh_capture f g h m)))) =
     captures (fresh_capture f g h m)"
proof -
  let ?w = "start 0 (fresh_capture f g h m)"
  have pre: "console ?w = wrappers 0" "wf_world 0 ?w"
    "originalConsole (captures ?w ! 0) = hosts f g h"
    "buffer 0 ?w = truncated (maxEntries (captures ?w ! 0)) []"
    by (simp_all add: start_facts fresh_facts)
  note r = calls_wrapped[OF pre, of cs]
  show "fst (console_calls cs ?w) = map raised cs" using r by simp
  show "wf_world 0 (snd (console_calls cs ?w))" using r by simp
  show "buffer 0 (snd (console_calls cs ?w)) = truncated (limit_of m) (recorded cs)"
    using r by (simp add: start_facts fresh_facts)
  show "forwarded (snd (console_calls cs ?w)) = map (fwd f g h) (filter returns cs)"
    using r by (simp add: start_facts fresh_facts)
  show "console (snd (console_calls cs ?w)) = wrappers 0" using r by simp
  show "captures (snd (console_calls cs ?w)) = captures (fresh_capture f g h m)"
    using r by (simp add: start_facts)
qed


text \<open>
  Facts about any world, with any number of capture objects: a call changes neither the
  console nor the capture objects, and no operation changes the saved originals of an
  object that exists.
\<close>

lemma captureLog_frame:
  "captureLog i l args now w = Inr w' \<Longrightarrow>
     captures w' = captures w \<and> console w' = console w \<and> forwarded w' = forwarded w \<and>
     length (heap w') = length (heap w)"
  by (auto simp: captureLog_def Let_def split: sum.splits)

lemma call_fn_frame:
  "captures (snd (call_fn fn args now w)) = captures w \<and>
   console (snd (call_fn fn args now w)) = console w \<and>
   length (heap (snd (call_fn fn args now w))) = length (heap w)"
proof (induction fn args now w rule: call_fn.induct)
  case (1 f args now w)
  then show ?case by simp
next
  case (2 i l args now w)
  show ?case
  proof (cases "captureLog i l args now w")
    case (Inl e)
    then show ?thesis by simp
  next
    case (Inr w')
    note fr = captureLog_frame[OF Inr]
    show ?thesis
    proof (cases "console_get (originalConsole (captures w' ! i)) l")
      case (Host f)
      then show ?thesis using Inr fr by simp
    next
      case (Wrapper j l')
      show ?thesis
      proof (cases "j < i")
        case True
        have "call_fn (Wrapper i l) args now w = call_fn (Wrapper j l') args now w'"
          by (subst call_fn.simps(2)) (simp add: Inr Wrapper True del: call_fn.simps)
        with "2.IH"[OF Inr Wrapper True] show ?thesis
          by (simp add: fr del: call_fn.simps)
      next
        case False
        then show ?thesis using Inr Wrapper fr by simp
      qed
    qed
  qed
qed

lemma call_frame:
  "captures (snd (console_call l args now w)) = captures w"
  "console (snd (console_call l args now w)) = console w"
  "length (heap (snd (console_call l args now w))) = length (heap w)"
  by (simp_all add: console_call_def call_fn_frame)

lemma new_facts:
  "fst (new_ConsoleCapture m w) = length (captures w)"
  "captures (snd (new_ConsoleCapture m w)) = captures w @
      [\<lparr> logs = length (heap w), maxEntries = limit_of m,
         originalConsole = \<lparr> log = log (console w), warn = warn (console w),
                             error = error (console w) \<rparr> \<rparr>]"
  "console (snd (new_ConsoleCapture m w)) = console w"
  "heap (snd (new_ConsoleCapture m w)) = heap w @ [[]]"
  "forwarded (snd (new_ConsoleCapture m w)) = forwarded w"
  by (simp_all add: new_ConsoleCapture_def alloc_def)

lemma console_copy: "\<lparr> log = log c, warn = warn c, error = error c \<rparr> = (c :: console)"
  by simp




lemma stop_frame:
  "heap (stop i w) = heap w" "captures (stop i w) = captures w" "forwarded (stop i w) = forwarded w"
  by (simp_all add: stop_def)

text \<open>
  The chain of wrappers descends. In every world reached from a page of host functions
  by constructing capture objects and by operations on objects that exist, the saved
  originals of the object \<open>i\<close> are host functions or wrappers of objects constructed
  before \<open>i\<close>; so a wrapper always goes on to its saved original.
\<close>

lemma older_simps [simp]: "older n (Host f)" "older n (Wrapper j l) = (j < n)"
  by (simp_all add: older_def)

lemma older_mono: "older i fn \<Longrightarrow> i \<le> n \<Longrightarrow> older n fn"
  by (cases fn) simp_all

lemma console_older_mono: "console_older i c \<Longrightarrow> i \<le> n \<Longrightarrow> console_older n c"
  by (auto simp: console_older_def intro: older_mono)

lemma console_older_get: "console_older n c \<Longrightarrow> older n (console_get c l)"
  by (cases l) (simp_all add: console_older_def)

lemma descending_host: "descending (host_world f g h)"
  by (simp add: descending_def host_world_def console_older_def)

lemma descending_new:
  assumes "descending w"
  shows "descending (snd (new_ConsoleCapture m w))"
proof -
  let ?n = "length (captures w)"
  let ?w = "snd (new_ConsoleCapture m w)"
  have cur: "console_older ?n (console w)"
    using assms by (simp add: descending_def)
  have "\<forall>i < length (captures ?w). console_older i (originalConsole (captures ?w ! i))"
  proof (intro allI impI)
    fix i assume "i < length (captures ?w)"
    then have "i < Suc ?n" by (simp add: new_facts)
    then consider "i < ?n" | "i = ?n" by (auto simp: less_Suc_eq)
    then show "console_older i (originalConsole (captures ?w ! i))"
    proof cases
      case 1
      then show ?thesis using assms by (simp add: new_facts nth_append descending_def)
    next
      case 2
      then show ?thesis using cur by (simp add: new_facts console_copy)
    qed
  qed
  moreover have "console_older (length (captures ?w)) (console ?w)"
    using console_older_mono[OF cur, of "Suc ?n"] by (simp add: new_facts)
  ultimately show ?thesis by (simp add: descending_def)
qed

lemma descending_start:
  "descending w \<Longrightarrow> i < length (captures w) \<Longrightarrow> descending (start i w)"
  by (simp add: descending_def start_def console_older_def)

lemma descending_stop:
  assumes "descending w" "i < length (captures w)"
  shows "descending (stop i w)"
proof -
  have "console_older i (originalConsole (captures w ! i))"
    using assms by (simp add: descending_def)
  from console_older_mono[OF this, of "length (captures w)"]
  have "console_older (length (captures w)) (originalConsole (captures w ! i))"
    using assms(2) by simp
  then show ?thesis
    using assms(1) by (simp add: descending_def stop_def console_copy)
qed

lemma descending_clear:
  assumes "descending w" "i < length (captures w)"
  shows "descending (clear i w)"
proof -
  have "originalConsole ((captures w)[i := (captures w ! i)\<lparr> logs := length (heap w) \<rparr>] ! j) =
      originalConsole (captures w ! j)" if "j < length (captures w)" for j
    using that by (cases "j = i") simp_all
  then show ?thesis
    using assms(1) by (simp add: descending_def clear_def alloc_def)
qed

lemma descending_getLogs: "descending w \<Longrightarrow> descending (snd (getLogs i w))"
  by (simp add: descending_def getLogs_def alloc_def)

lemma descending_call: "descending w \<Longrightarrow> descending (snd (console_call l args now w))"
  by (simp add: descending_def call_frame)

lemma descending_run_op: "descending w \<Longrightarrow> descending (run_op x w)"
  by (cases x)
    (simp_all add: descending_new descending_start descending_stop descending_clear
      descending_getLogs descending_call)

lemma descending_run_ops: "descending (run_ops xs (host_world f g h))"
proof -
  have "descending w \<Longrightarrow> descending (run_ops xs w)" for w
    by (induction xs arbitrary: w) (simp_all add: descending_run_op)
  then show ?thesis by (simp add: descending_host)
qed

lemma call_fn_descends:
  assumes "descending w" "i < length (captures w)" "captureLog i l args now w = Inr w'"
  shows "call_fn (Wrapper i l) args now w =
           call_fn (console_get (originalConsole (captures w ! i)) l) args now w'"
proof -
  note fr = captureLog_frame[OF assms(3)]
  have o: "older i (console_get (originalConsole (captures w ! i)) l)"
    using assms by (simp add: descending_def console_older_get)
  show ?thesis
  proof (cases "console_get (originalConsole (captures w ! i)) l")
    case (Host f)
    show ?thesis
      by (subst call_fn.simps(2)) (simp add: assms(3) fr Host del: call_fn.simps(2))
  next
    case (Wrapper j l')
    with o have "j < i" by simp
    then show ?thesis
      by (subst call_fn.simps(2)) (simp add: assms(3) fr Wrapper del: call_fn.simps)
  qed
qed

text \<open>
  A call on well-behaved values returns, whatever functions the console holds: the
  widget's own log lines never throw.
\<close>

lemma stringify_plain: "\<exists>ss. map_stringify (map plain vs) = Inr ss"
proof (induction vs)
  case Nil
  then show ?case by simp
next
  case (Cons v vs)
  then obtain ss where "map_stringify (map plain vs) = Inr ss" by blast
  then show ?case
    by (cases v) (simp_all add: stringify_arg_def split: option.splits)
qed

lemma make_entry_plain: "\<exists>x. make_entry l (map plain vs) now = Inr x"
proof -
  obtain ss where ss: "map_stringify (map plain vs) = Inr ss"
    using stringify_plain by blast
  have "\<exists>st. entry_stack l (map plain vs) = Inr st"
  proof (cases vs)
    case Nil
    then show ?thesis by (simp add: entry_stack_def)
  next
    case (Cons v rest)
    then show ?thesis by (cases v) (simp_all add: entry_stack_def)
  qed
  then obtain st where "entry_stack l (map plain vs) = Inr st" by blast
  then show ?thesis by (simp add: make_entry_def ss)
qed

lemma plain_call_returns: "fst (call_fn fn (map plain vs) now w) = None"
proof (induction fn "map plain vs" now w rule: call_fn.induct)
  case (1 f now w)
  then show ?case by simp
next
  case (2 i l now w)
  obtain x where x: "make_entry l (map plain vs) now = Inr x"
    using make_entry_plain by blast
  then obtain w' where w': "captureLog i l (map plain vs) now w = Inr w'"
    by (simp add: captureLog_def Let_def)
  show ?case
  proof (cases "console_get (originalConsole (captures w' ! i)) l")
    case (Host f)
    then show ?thesis using w' by simp
  next
    case (Wrapper j l')
    show ?thesis
    proof (cases "j < i")
      case True
      have "call_fn (Wrapper i l) (map plain vs) now w =
            call_fn (Wrapper j l') (map plain vs) now w'"
        by (subst call_fn.simps(2)) (simp add: w' Wrapper True del: call_fn.simps)
      with "2.hyps"[OF w' Wrapper True] show ?thesis
        by (simp del: call_fn.simps)
    next
      case False
      then show ?thesis using w' Wrapper by simp
    qed
  qed
qed

text \<open>
  The array that \<^verbatim>\<open>getLogs()\<close> returns is a copy: calls made after it was taken change the
  buffer of the capture object and leave the returned array as it was.
\<close>

lemma call_wrapped_other:
  assumes "console w = wrappers i" "wf_world i w" "originalConsole (captures w ! i) = hosts f g h"
    and "a < length (heap w)" "a \<noteq> logs (captures w ! i)"
  shows "heap (snd (console_call l args now w)) ! a = heap w ! a"
proof (cases "make_entry l args now")
  case (Inl e)
  then show ?thesis by (simp add: call_wrapped_raise[OF assms(1)])
next
  case (Inr x)
  then show ?thesis
    using assms
    by (simp add: console_call_def console_get_wrappers console_get_hosts captureLog_def Let_def
        wf_world_def)
qed

lemma call_wrapped_keeps:
  assumes "console w = wrappers i" "wf_world i w" "originalConsole (captures w ! i) = hosts f g h"
  shows "console (snd (console_call l args now w)) = wrappers i"
    and "wf_world i (snd (console_call l args now w))"
    and "captures (snd (console_call l args now w)) = captures w"
proof -
  have c: "captures (snd (console_call l args now w)) = captures w"
    and d: "console (snd (console_call l args now w)) = console w"
    and e: "length (heap (snd (console_call l args now w))) = length (heap w)"
    by (simp_all add: call_frame)
  show "console (snd (console_call l args now w)) = wrappers i" using assms(1) d by simp
  show "wf_world i (snd (console_call l args now w))" using assms(2) c e by (simp add: wf_world_def)
  show "captures (snd (console_call l args now w)) = captures w" by (rule c)
qed

lemma calls_wrapped_other:
  assumes "console w = wrappers i" "wf_world i w" "originalConsole (captures w ! i) = hosts f g h"
    and "a < length (heap w)" "a \<noteq> logs (captures w ! i)"
  shows "heap (snd (console_calls cs w)) ! a = heap w ! a"
  using assms
proof (induction cs arbitrary: w)
  case Nil
  then show ?case by simp
next
  case (Cons c cs)
  obtain l args now where c: "c = (l, args, now)" by (cases c)
  let ?w = "snd (console_call l args now w)"
  note st = call_wrapped_keeps[OF Cons.prems(1,2,3), of l args now]
  note ot = call_wrapped_other[OF Cons.prems, of l args now]
  have "heap (snd (console_calls cs ?w)) ! a = heap ?w ! a"
    using Cons.prems by (intro Cons.IH) (simp_all add: st call_frame)
  then show ?case using ot by (simp add: c split_def Let_def)
qed

lemma getLogs_facts:
  assumes "wf_world i w"
  shows "console (snd (getLogs i w)) = console w" "wf_world i (snd (getLogs i w))"
    "captures (snd (getLogs i w)) = captures w" "buffer i (snd (getLogs i w)) = buffer i w"
    "fst (getLogs i w) < length (heap (snd (getLogs i w)))"
    "fst (getLogs i w) \<noteq> logs (captures w ! i)"
    "heap (snd (getLogs i w)) ! fst (getLogs i w) = buffer i w"
  using assms
  by (simp_all add: getLogs_def alloc_def wf_world_def buffer_def nth_append)

lemma snapshot_is_a_copy:
  "heap (snd (console_calls cs'
       (snd (getLogs 0 (snd (console_calls cs (start 0 (fresh_capture f g h m)))))))) !
     fst (getLogs 0 (snd (console_calls cs (start 0 (fresh_capture f g h m))))) =
   truncated (limit_of m) (recorded cs)"
proof -
  let ?w = "snd (console_calls cs (start 0 (fresh_capture f g h m)))"
  note w = started_calls[of cs f g h m]
  note g = getLogs_facts[OF w(2)]
  have orig: "originalConsole (captures (snd (getLogs 0 ?w)) ! 0) = hosts f g h"
    by (simp add: g w fresh_facts)
  have "heap (snd (console_calls cs' (snd (getLogs 0 ?w)))) ! fst (getLogs 0 ?w) =
        heap (snd (getLogs 0 ?w)) ! fst (getLogs 0 ?w)"
    using w g orig
    by (intro calls_wrapped_other[where i = 0 and f = f and g = g and h = h]) simp_all
  then show ?thesis
    by (simp add: g w)
qed










section \<open>Properties of the socket client and the component\<close>

subsection \<open>Frame and invariant lemmas\<close>

lemma timer_inv_iff:
  "timer_inv s =
     (timers s = (case reconnectTimeout (wsClient s) of None \<Rightarrow> [] | Some h \<Rightarrow> [(h, 5000)]))"
  by (simp add: timer_inv_def net_def)

lemma net_simps [simp]:
  "net (log_to_console l args now s) = net s"
  "net (console_called l args' now s) = net s"
  "net (set_ui f s) = net s"
  "net (saveSessions ss s) = net s"
  "net (saveStoredSettings st s) = net s"
  "net (handleError msg st' file line col s) = net s"
  "net (handleRejection msg' str st' s) = net s"
  "net (render s) = net s"
  by (simp_all add: net_def log_to_console_def console_called_def set_ui_def saveSessions_def
      saveStoredSettings_def
      handleError_def handleRejection_def set_capturedError_def render_def split_def Let_def)

lemma net_handlers [simp]:
  "net (widget_onQuestions sid qs now s) = net s"
  "net (snd (handleSend_begin now s)) = net s"
  "net (handleSend_settle p outcome now s) = net s"
  "net (snd (handleSubmitAnswers_begin s)) = net s"
  "net (handleSubmitAnswers_settle pa oa s) = net s"
  "net (handleCaptureScreenshot_begin s) = net s"
  "net (handleCaptureScreenshot_settle r now s) = net s"
  "net (ws_onopen now s) = net s"
  "net (ws_onerror e now s) = net s"
  "net (ws_onmessage d now s) = net s"
proof -
  show "net (widget_onQuestions sid qs now s) = net s"
    by (simp add: widget_onQuestions_def)
  show "net (snd (handleSend_begin now s)) = net s"
    by (simp add: handleSend_begin_def Let_def split_def net_def set_ui_def)
  show "net (handleSend_settle p outcome now s) = net s"
    by (simp add: handleSend_settle_def Let_def split: sum.splits)
  show "net (snd (handleSubmitAnswers_begin s)) = net s"
    by (simp add: handleSubmitAnswers_begin_def net_def split: option.splits)
  show "net (handleSubmitAnswers_settle pa oa s) = net s"
    by (simp add: handleSubmitAnswers_settle_def Let_def split: sum.splits)
  show "net (handleCaptureScreenshot_begin s) = net s"
    by (simp add: handleCaptureScreenshot_begin_def)
  show "net (handleCaptureScreenshot_settle r now s) = net s"
    by (simp add: handleCaptureScreenshot_settle_def split: sum.splits)
  show "net (ws_onopen now s) = net s"
    by (simp add: ws_onopen_def)
  show "net (ws_onerror e now s) = net s"
    by (simp add: ws_onerror_def)
  show "net (ws_onmessage d now s) = net s"
    by (simp add: ws_onmessage_def widget_onQuestions_def split: ws_data.splits option.splits callback.splits)
qed

lemma timer_inv_net: "net s' = net s \<Longrightarrow> timer_inv s \<Longrightarrow> timer_inv s'"
  by (simp add: timer_inv_def)

lemma timer_inv_scheduleReconnect: "timer_inv s \<Longrightarrow> timer_inv (scheduleReconnect s)"
  by (auto simp: timer_inv_iff scheduleReconnect_def split: option.splits)

lemma timer_inv_connect: "timer_inv s \<Longrightarrow> timer_inv (connect throws now s)"
proof (cases throws)
  case None
  assume "timer_inv s"
  then show ?thesis using None by (simp add: connect_def timer_inv_iff)
next
  case (Some e)
  assume "timer_inv s"
  then have "timer_inv (log_to_console Error [Prim ''[DebugWidget] Failed to connect WebSocket:'', e] now s)"
    by (simp add: timer_inv_def)
  then show ?thesis using Some by (simp add: connect_def timer_inv_scheduleReconnect)
qed

lemma timer_inv_disconnect: "timer_inv s \<Longrightarrow> timer_inv (disconnect s)"
  by (auto simp: timer_inv_iff disconnect_def clearTimeout_def Let_def split: option.splits)

lemma timer_inv_timer_fired: "timer_inv s \<Longrightarrow> timer_inv (timer_fired h throws now s)"
proof (cases "h \<in> set (map fst (timers s))")
  case True
  assume inv: "timer_inv s"
  have "timer_inv ((clearTimeout h s)\<lparr> wsClient := (wsClient s)\<lparr> reconnectTimeout := None \<rparr> \<rparr>)"
    using inv True by (auto simp: timer_inv_iff clearTimeout_def split: option.splits)
  then show ?thesis using True by (simp add: timer_fired_def timer_inv_connect)
next
  case False
  assume "timer_inv s"
  then show ?thesis using False by (simp add: timer_fired_def)
qed

lemma timer_inv_handle: "timer_inv s \<Longrightarrow> timer_inv (handle now e s)"
proof (cases e)
  case (Mounted throws)
  assume inv: "timer_inv s"
  have "timer_inv (s\<lparr> world := start (consoleCapture first_render) (world s), errorListening := True \<rparr>)"
    using inv by (simp add: timer_inv_iff)
  from timer_inv_connect[OF this, of throws now]
  show ?thesis using Mounted by (simp add: mount_def onQuestions_def timer_inv_iff)
next
  case Unmounted
  assume inv: "timer_inv s"
  have "timer_inv (s\<lparr> world := stop (consoleCapture first_render) (world s), errorListening := False \<rparr>)"
    using inv by (simp add: timer_inv_iff)
  from timer_inv_disconnect[OF this]
  show ?thesis using Unmounted by (simp add: unmount_def)
next
  case SocketClosed
  assume inv: "timer_inv s"
  then have "timer_inv (log_to_console Log [Prim ''[DebugWidget] WebSocket disconnected''] now s)"
    by (simp add: timer_inv_def)
  then show ?thesis using SocketClosed by (simp add: ws_onclose_def timer_inv_scheduleReconnect)
next
  case (TimerFired h throws)
  assume "timer_inv s"
  then show ?thesis using TimerFired by (simp add: timer_inv_timer_fired)
qed (simp_all add: timer_inv_def)

lemma net_step: "net (step now e s) = net (handle now e s)"
  by (simp add: step_def Let_def)

lemma timer_inv_step: "timer_inv s \<Longrightarrow> timer_inv (step now e s)"
  using timer_inv_handle[of s now e] by (simp add: timer_inv_def net_step)

lemma timer_inv_steps: "timer_inv s \<Longrightarrow> timer_inv (steps es s)"
  by (induction es arbitrary: s) (auto simp: timer_inv_step)

lemma timer_inv_initial: "timer_inv (initial cfg pg)"
  by (simp add: timer_inv_iff initial_def)

lemma net_close_pending:
  "reconnectTimeout (wsClient s) \<noteq> None \<Longrightarrow> net (ws_onclose now s) = net s"
proof -
  assume a: "reconnectTimeout (wsClient s) \<noteq> None"
  let ?s = "log_to_console Log [Prim ''[DebugWidget] WebSocket disconnected''] now s"
  have "wsClient ?s = wsClient s" by (simp add: log_to_console_def console_called_def)
  with a have "scheduleReconnect ?s = ?s"
    by (auto simp: scheduleReconnect_def split: option.splits)
  then show ?thesis by (simp add: ws_onclose_def)
qed

lemma close_schedules:
  assumes "timer_inv s"
  shows "\<exists>h. timers (ws_onclose now s) = [(h, 5000)] \<and>
             reconnectTimeout (wsClient (ws_onclose now s)) = Some h"
    and "nextTimer (ws_onclose now s) = (if timers s = [] then Suc (nextTimer s) else nextTimer s)"
  using assms
  by (auto simp: timer_inv_iff ws_onclose_def scheduleReconnect_def log_to_console_def console_called_def
      split: option.splits)

lemma closes_idempotent:
  "reconnectTimeout (wsClient s) \<noteq> None \<Longrightarrow>
     net (steps (map (\<lambda>t. (t, SocketClosed)) ts) s) = net s"
proof (induction ts arbitrary: s)
  case Nil
  then show ?case by simp
next
  case (Cons t ts)
  have eq: "net (step t SocketClosed s) = net s"
    using net_close_pending[OF Cons.prems] by (simp add: net_step)
  then have "reconnectTimeout (wsClient (step t SocketClosed s)) \<noteq> None"
    using Cons.prems by (simp add: net_def)
  from Cons.IH[OF this] eq show ?case by simp
qed

lemma registered_iff: "registered s = (onQuestionsCallback (wsClient s) = Some WidgetOnQuestions)"
  by (simp add: registered_def net_def)

lemma registered_scheduleReconnect: "registered s \<Longrightarrow> registered (scheduleReconnect s)"
  by (auto simp: registered_iff scheduleReconnect_def split: option.splits)

lemma registered_connect: "registered s \<Longrightarrow> registered (connect throws now s)"
proof (cases throws)
  case None
  assume "registered s"
  then show ?thesis using None by (simp add: connect_def registered_iff)
next
  case (Some e)
  assume "registered s"
  then have "registered (log_to_console Error [Prim ''[DebugWidget] Failed to connect WebSocket:'', e] now s)"
    by (simp add: registered_def)
  then show ?thesis using Some by (simp add: connect_def registered_scheduleReconnect)
qed

lemma registered_handle: "registered s \<Longrightarrow> registered (handle now e s)"
proof (cases e)
  case (Mounted throws)
  then show ?thesis by (simp add: mount_def onQuestions_def registered_iff)
next
  case Unmounted
  assume "registered s"
  then show ?thesis using Unmounted
    by (auto simp: unmount_def disconnect_def clearTimeout_def registered_iff Let_def
        split: option.splits)
next
  case SocketClosed
  assume "registered s"
  then have "registered (log_to_console Log [Prim ''[DebugWidget] WebSocket disconnected''] now s)"
    by (simp add: registered_def)
  then show ?thesis using SocketClosed by (simp add: ws_onclose_def registered_scheduleReconnect)
next
  case (TimerFired h throws)
  assume r: "registered s"
  show ?thesis
  proof (cases "h \<in> set (map fst (timers s))")
    case True
    have "registered ((clearTimeout h s)\<lparr> wsClient := (wsClient s)\<lparr> reconnectTimeout := None \<rparr> \<rparr>)"
      using r by (simp add: registered_iff clearTimeout_def)
    then show ?thesis using True TimerFired by (simp add: timer_fired_def registered_connect)
  next
    case False
    then show ?thesis using r TimerFired by (simp add: timer_fired_def)
  qed
qed (simp_all add: registered_def)

lemma registered_step: "registered s \<Longrightarrow> registered (step now e s)"
  using registered_handle[of s now e] by (simp add: registered_def net_step)

lemma registered_steps: "registered s \<Longrightarrow> registered (steps es s)"
  by (induction es arbitrary: s) (auto simp: registered_step)

lemma registered_mounted: "registered (steps es (step t0 (Mounted throws) (initial cfg pg)))"
proof (rule registered_steps)
  have "registered (handle t0 (Mounted throws) (initial cfg pg))"
    by (simp add: mount_def onQuestions_def registered_iff)
  then show "registered (step t0 (Mounted throws) (initial cfg pg))"
    by (simp add: registered_def net_step)
qed

lemma ui_frame [simp]:
  "ui (log_to_console l args now s) = ui s"
  "ui (console_called l args' now s) = ui s"
  "ui (set_ui f s) = f (ui s)"
  "ui (saveSessions ss s) = ui s"
  "ui (saveStoredSettings st s) = ui s"
  "ui (handleError msg st' file line col s) = ui s"
  "ui (handleRejection msg' str st' s) = ui s"
  "ui (scheduleReconnect s) = ui s"
  "ui (disconnect s) = ui s"
  "ui (onQuestions cb s) = ui s"
  "ui (connect throws now s) = ui s"
  "ui (timer_fired h throws now s) = ui s"
  "ui (render s) = ui s"
  by (simp_all add: log_to_console_def console_called_def set_ui_def saveSessions_def
      saveStoredSettings_def
      handleError_def handleRejection_def scheduleReconnect_def disconnect_def clearTimeout_def
      onQuestions_def connect_def timer_fired_def set_capturedError_def render_def step_def
      split_def Let_def split: option.splits)

lemma ui_step [simp]: "ui (step now e s) = ui (handle now e s)"
  by (simp add: step_def Let_def)

lemma config_frame [simp]:
  "config (log_to_console l args now s) = config s"
  "config (console_called l args' now s) = config s"
  "config (set_ui f s) = config s"
  "config (render s) = config s"
  by (simp_all add: log_to_console_def console_called_def set_ui_def render_def split_def Let_def)

lemma config_step: "config (step now e s) = config (handle now e s)"
  by (simp add: step_def Let_def)

lemma ui_handlers:
  "ui (snd (handleSend_begin now s)) = (ui s)\<lparr> isSending := True, status := ''Sending...'' \<rparr>"
  "ui (snd (handleSubmitAnswers_begin s)) = ui s"
  "ui (handleCaptureScreenshot_begin s) = (ui s)\<lparr> isCapturing := True \<rparr>"
  "ui (ws_onopen now s) = ui s"
  "ui (ws_onclose now s) = ui s"
  "ui (ws_onerror e now s) = ui s"
  "ui (mount throws now s) = ui s"
  "ui (unmount s) = ui s"
  by (simp_all add: handleSend_begin_def Let_def split_def handleSubmitAnswers_begin_def
      handleCaptureScreenshot_begin_def ws_onopen_def ws_onclose_def ws_onerror_def mount_def
      unmount_def split: option.splits)

lemma ui_settle_failure:
  "submitDebugReport_result outcome = Inl e \<Longrightarrow>
     ui (handleSend_settle p outcome now s) =
       (ui s)\<lparr> status := ''Error: '' @ to_String e, isWaitingForResponse := False,
                isSending := False \<rparr>"
  by (simp add: handleSend_settle_def)

lemma ui_settle_success:
  "submitDebugReport_result outcome = Inr d \<Longrightarrow>
     ui (handleSend_settle p outcome now s) =
       (ui s)\<lparr> sessions := ps_sessions p @ [newSession p d], comment := [], screenshot := None,
                isWaitingForResponse := (ps_debugMode p = Wait \<or> isWaitingForResponse (ui s)),
                status := (if ps_debugMode p = Wait then ''Waiting for response...''
                           else ''Added to backlog''),
                isSending := False \<rparr>"
  by (simp add: handleSend_settle_def Let_def)

lemma waiting_step:
  assumes "isWaitingForResponse (ui (step t e s))" "\<not> isWaitingForResponse (ui s)"
  shows "raises_waiting e"
proof (cases e)
  case (SendSettled p outcome)
  show ?thesis
  proof (cases "submitDebugReport_result outcome")
    case (Inl x)
    then show ?thesis using assms SendSettled by (simp add: ui_settle_failure)
  next
    case (Inr d)
    then show ?thesis using assms SendSettled
      by (simp add: ui_settle_success raises_waiting_def send_succeeds_def)
  qed
next
  case (SocketMessage d)
  then show ?thesis using assms
    by (simp add: ws_onmessage_def widget_onQuestions_def
        split: ws_data.splits option.splits callback.splits)
next
  case (AnswersSettled p outcome)
  then show ?thesis using assms
    by (simp add: handleSubmitAnswers_settle_def Let_def split: sum.splits)
next
  case (ScreenshotSettled r)
  then show ?thesis using assms
    by (simp add: handleCaptureScreenshot_settle_def split: sum.splits)
qed (use assms in \<open>simp_all add: ui_handlers split: if_splits\<close>)

lemma comment_step:
  assumes "comment (ui (step t e s)) \<noteq> comment (ui s)"
  shows "changes_comment e"
proof (cases e)
  case (SendSettled p outcome)
  show ?thesis
  proof (cases "submitDebugReport_result outcome")
    case (Inl x)
    then show ?thesis using assms SendSettled by (simp add: ui_settle_failure)
  next
    case (Inr d)
    then show ?thesis using SendSettled by (simp add: changes_comment_def send_succeeds_def)
  qed
next
  case (SocketMessage d)
  then show ?thesis using assms
    by (simp add: ws_onmessage_def widget_onQuestions_def
        split: ws_data.splits option.splits callback.splits)
next
  case (AnswersSettled p outcome)
  then show ?thesis using assms
    by (simp add: handleSubmitAnswers_settle_def Let_def split: sum.splits)
next
  case (ScreenshotSettled r)
  then show ?thesis using assms
    by (simp add: handleCaptureScreenshot_settle_def split: sum.splits)
next
  case (InputComment v)
  then show ?thesis by (simp add: changes_comment_def)
qed (use assms in \<open>simp_all add: ui_handlers split: if_splits\<close>)

lemma not_waiting_steps:
  assumes "list_all (\<lambda>x. \<not> is_send_settled (snd x)) es" "\<not> isWaitingForResponse (ui s)"
  shows "\<not> isWaitingForResponse (ui (steps es s))"
  using assms
proof (induction es arbitrary: s)
  case Nil
  then show ?case by simp
next
  case (Cons x es)
  obtain t e where x: "x = (t, e)" by (cases x)
  have ns: "\<not> is_send_settled e" using Cons.prems(1) by (simp add: x)
  have "\<not> isWaitingForResponse (ui (step t e s))"
  proof
    assume "isWaitingForResponse (ui (step t e s))"
    from waiting_step[OF this Cons.prems(2)] ns show False
      by (auto simp: raises_waiting_def is_send_settled_def split: event.splits)
  qed
  with Cons show ?case by (simp add: x)
qed

lemma config_handle: "config (handle now e s) = config s"
proof (cases e)
  case (Mounted throws)
  then show ?thesis
    by (cases throws)
      (simp_all add: mount_def connect_def onQuestions_def scheduleReconnect_def
        split: option.splits)
next
  case Unmounted
  then show ?thesis
    by (simp add: unmount_def disconnect_def clearTimeout_def Let_def split: option.splits)
next
  case (TimerFired h throws)
  then show ?thesis
    by (cases throws)
      (simp_all add: timer_fired_def connect_def clearTimeout_def scheduleReconnect_def
        split: option.splits)
next
  case (SocketMessage d)
  then show ?thesis
    by (simp add: ws_onmessage_def widget_onQuestions_def
        split: ws_data.splits option.splits callback.splits)
next
  case SocketClosed
  then show ?thesis by (simp add: ws_onclose_def scheduleReconnect_def split: option.splits)
next
  case (SendSettled p outcome)
  then show ?thesis
    by (simp add: handleSend_settle_def saveSessions_def Let_def split: sum.splits)
next
  case (AnswersSettled p outcome)
  then show ?thesis
    by (simp add: handleSubmitAnswers_settle_def saveSessions_def Let_def split: sum.splits)
next
  case (ScreenshotSettled r)
  then show ?thesis by (simp add: handleCaptureScreenshot_settle_def split: sum.splits)
next
  case ClickSend
  then show ?thesis by (simp add: handleSend_begin_def Let_def split_def set_ui_def)
next
  case ClickSubmitAnswers
  then show ?thesis by (simp add: handleSubmitAnswers_begin_def split: option.splits)
next
  case SaveSettings
  then show ?thesis by (simp add: saveStoredSettings_def)
qed (simp_all add: ws_onopen_def ws_onerror_def handleCaptureScreenshot_begin_def
    handleError_def handleRejection_def set_capturedError_def)

lemma config_step_same [simp]: "config (step now e s) = config s"
  by (simp add: config_step config_handle)

lemma config_steps [simp]: "config (steps es s) = config s"
  by (induction es arbitrary: s) auto

lemma config_initial [simp]: "config (initial cfg pg) = cfg"
  by (simp add: initial_def)

lemma ui_initial [simp]: "ui (initial cfg pg) = initial_widget cfg (page_settings pg) (page_sessions pg)"
  by (simp add: initial_def)

lemma world_inv_call: "world_inv w \<Longrightarrow> world_inv (snd (console_call l args now w))"
proof -
  assume inv: "world_inv w"
  from inv obtain f g h where orig: "originalConsole (captures w ! 0) = hosts f g h"
    by (auto simp: world_inv_def)
  from inv consider "console w = wrappers 0" | f' g' h' where "console w = hosts f' g' h'"
    by (auto simp: world_inv_def)
  then show ?thesis
  proof cases
    case 1
    then show ?thesis
      using inv orig
      by (auto simp: world_inv_def console_call_def console_get_wrappers console_get_hosts
          captureLog_def Let_def nth_list_update split: sum.splits)
  next
    case 2
    then show ?thesis
      using inv by (auto simp: world_inv_def console_call_def console_get_hosts)
  qed
qed

lemma world_inv_start: "world_inv w \<Longrightarrow> world_inv (start 0 w)"
  by (auto simp: world_inv_def start_def wrappers_def)

lemma world_inv_stop: "world_inv w \<Longrightarrow> world_inv (stop 0 w)"
  by (auto simp: world_inv_def stop_def hosts_def)

lemma world_inv_getLogs:
  "world_inv w \<Longrightarrow> world_inv (snd (getLogs i w))"
  by (auto simp: world_inv_def getLogs_def alloc_def nth_append less_Suc_eq)

lemma world_inv_new:
  "world_inv w \<Longrightarrow> world_inv (snd (new_ConsoleCapture m w))"
  by (auto simp: world_inv_def new_ConsoleCapture_def alloc_def nth_append less_Suc_eq)

lemma world_frame [simp]:
  "world (log_to_console l args now s) = snd (console_call l (map plain args) now (world s))"
  "world (console_called l args' now s) = snd (console_call l args' now (world s))"
  "world (set_ui f s) = world s"
  "world (saveSessions ss s) = world s"
  "world (saveStoredSettings st s) = world s"
  "world (handleError msg st' file line col s) = world s"
  "world (handleRejection msg' str st' s) = world s"
  "world (scheduleReconnect s) = world s"
  "world (disconnect s) = world s"
  "world (onQuestions cb s) = world s"
  by (simp_all add: log_to_console_def console_called_def set_ui_def saveSessions_def
      saveStoredSettings_def
      handleError_def handleRejection_def set_capturedError_def scheduleReconnect_def
      disconnect_def clearTimeout_def onQuestions_def Let_def split: option.splits)

lemma world_handleSend_begin:
  "world (snd (handleSend_begin now s)) = snd (getLogs (consoleCapture (rendered s)) (world s))"
  by (simp add: handleSend_begin_def Let_def split_def set_ui_def)

lemma world_handleSubmitAnswers_begin:
  "world (snd (handleSubmitAnswers_begin s)) = world s"
  by (simp add: handleSubmitAnswers_begin_def split: option.splits)

lemma handle_world_preserves:
  assumes init: "Q (world s)"
    and call: "\<And>w l args t. Q w \<Longrightarrow> Q (snd (console_call l args t w))"
    and start: "\<And>w. Q w \<Longrightarrow> Q (start 0 w)"
    and stop: "\<And>w. Q w \<Longrightarrow> Q (stop 0 w)"
    and copy: "\<And>w i. Q w \<Longrightarrow> Q (snd (getLogs i w))"
  shows "Q (world (handle now e s))"
proof (cases e)
  case (Mounted throws)
  then show ?thesis
    using init call start
    by (cases throws) (simp_all add: mount_def connect_def first_render_def)
next
  case Unmounted
  then show ?thesis using init stop by (simp add: unmount_def first_render_def)
next
  case (TimerFired h throws)
  then show ?thesis
    using init call
    by (cases throws) (simp_all add: timer_fired_def connect_def clearTimeout_def)
next
  case (SocketMessage d)
  then show ?thesis
    using init call
    by (simp add: ws_onmessage_def widget_onQuestions_def
        split: ws_data.splits option.splits callback.splits)
next
  case (SendSettled p outcome)
  then show ?thesis
    using init call
    by (simp add: handleSend_settle_def Let_def split: sum.splits)
next
  case (AnswersSettled p outcome)
  then show ?thesis
    using init
    by (simp add: handleSubmitAnswers_settle_def Let_def split: sum.splits)
next
  case (ScreenshotSettled r)
  then show ?thesis
    using init call
    by (simp add: handleCaptureScreenshot_settle_def split: sum.splits)
next
  case ClickSend
  then show ?thesis using init copy by (simp add: world_handleSend_begin)
qed (use init call in \<open>simp_all add: ws_onopen_def ws_onclose_def ws_onerror_def
      handleCaptureScreenshot_begin_def world_handleSubmitAnswers_begin\<close>)

lemma rendered_frame [simp]:
  "rendered (log_to_console l args now s) = rendered s"
  "rendered (console_called l args' now s) = rendered s"
  "rendered (set_ui f s) = rendered s"
  "rendered (saveSessions ss s) = rendered s"
  "rendered (saveStoredSettings st s) = rendered s"
  "rendered (handleError msg st' file line col s) = rendered s"
  "rendered (handleRejection msg' str st' s) = rendered s"
  "rendered (scheduleReconnect s) = rendered s"
  "rendered (disconnect s) = rendered s"
  "rendered (onQuestions cb s) = rendered s"
  by (simp_all add: log_to_console_def console_called_def set_ui_def saveSessions_def
      saveStoredSettings_def
      handleError_def handleRejection_def set_capturedError_def scheduleReconnect_def
      disconnect_def clearTimeout_def onQuestions_def Let_def split: option.splits)

lemma requests_frame [simp]:
  "requests (log_to_console l args now s) = requests s"
  "requests (console_called l args' now s) = requests s"
  "requests (set_ui f s) = requests s"
  "requests (saveSessions ss s) = requests s"
  "requests (saveStoredSettings st s) = requests s"
  "requests (handleError msg st' file line col s) = requests s"
  "requests (handleRejection msg' str st' s) = requests s"
  "requests (scheduleReconnect s) = requests s"
  "requests (disconnect s) = requests s"
  "requests (onQuestions cb s) = requests s"
  "requests (render s) = requests s"
  by (simp_all add: log_to_console_def console_called_def set_ui_def saveSessions_def
      saveStoredSettings_def
      handleError_def handleRejection_def set_capturedError_def scheduleReconnect_def
      disconnect_def clearTimeout_def onQuestions_def render_def split_def Let_def
      split: option.splits)

lemma rendered_handle: "rendered (handle now e s) = rendered s"
proof (cases e)
  case (Mounted throws)
  then show ?thesis by (cases throws) (simp_all add: mount_def connect_def)
next
  case Unmounted
  then show ?thesis by (simp add: unmount_def)
next
  case (TimerFired h throws)
  then show ?thesis
    by (cases throws) (simp_all add: timer_fired_def connect_def clearTimeout_def)
next
  case (SocketMessage d)
  then show ?thesis
    by (simp add: ws_onmessage_def widget_onQuestions_def
        split: ws_data.splits option.splits callback.splits)
next
  case (SendSettled p outcome)
  then show ?thesis by (simp add: handleSend_settle_def Let_def split: sum.splits)
next
  case (AnswersSettled p outcome)
  then show ?thesis by (simp add: handleSubmitAnswers_settle_def Let_def split: sum.splits)
next
  case (ScreenshotSettled r)
  then show ?thesis by (simp add: handleCaptureScreenshot_settle_def split: sum.splits)
next
  case ClickSend
  then show ?thesis by (simp add: handleSend_begin_def Let_def split_def set_ui_def)
next
  case ClickSubmitAnswers
  then show ?thesis by (simp add: handleSubmitAnswers_begin_def split: option.splits)
qed (simp_all add: ws_onopen_def ws_onclose_def ws_onerror_def handleCaptureScreenshot_begin_def)

lemma requests_handle:
  "requests (handle now e s) = requests s \<or>
   (\<exists>a. e = ClickSubmitAnswers \<and> requests (handle now e s) = requests s @ [a] \<and> report_logs a = []) \<or>
   (e = ClickSend \<and> panel_rendered s \<and>
    (\<exists>r. requests (handle now e s) = requests s @ [r] \<and>
       report_logs r = heap (world s) ! logs (captures (world s) ! consoleCapture (rendered s))))"
proof (cases e)
  case (Mounted throws)
  then show ?thesis by (cases throws) (simp_all add: mount_def connect_def)
next
  case Unmounted
  then show ?thesis by (simp add: unmount_def)
next
  case (TimerFired h throws)
  then show ?thesis
    by (cases throws) (simp_all add: timer_fired_def connect_def clearTimeout_def)
next
  case (SocketMessage d)
  then show ?thesis
    by (simp add: ws_onmessage_def widget_onQuestions_def
        split: ws_data.splits option.splits callback.splits)
next
  case (SendSettled p outcome)
  then show ?thesis by (simp add: handleSend_settle_def Let_def split: sum.splits)
next
  case (AnswersSettled p outcome)
  then show ?thesis by (simp add: handleSubmitAnswers_settle_def Let_def split: sum.splits)
next
  case (ScreenshotSettled r)
  then show ?thesis by (simp add: handleCaptureScreenshot_settle_def split: sum.splits)
next
  case ClickSend
  then show ?thesis
    by (simp add: handleSend_begin_def Let_def split_def set_ui_def getLogs_def alloc_def
        report_logs_def JSON_stringify_request_def nth_append)
next
  case ClickSubmitAnswers
  then show ?thesis
    by (simp add: handleSubmitAnswers_begin_def report_logs_def split: option.splits)
qed (simp_all add: ws_onopen_def ws_onclose_def ws_onerror_def handleCaptureScreenshot_begin_def)

lemma captures_getLogs: "captures (snd (getLogs i w)) = captures w"
  by (simp add: getLogs_def alloc_def)

lemma length_captures_handle:
  "length (captures (world (handle now e s))) = length (captures (world s))"
proof -
  have "(\<lambda>w. length (captures w) = length (captures (world s))) (world (handle now e s))"
    by (rule handle_world_preserves)
      (simp_all add: call_frame start_def stop_def captures_getLogs)
  then show ?thesis .
qed

lemma sys_inv_handle:
  assumes "sys_inv s"
  shows "sys_inv (handle now e s) \<or>
         (world_inv (world (handle now e s)) \<and>
          consoleCapture (rendered (handle now e s)) < length (captures (world (handle now e s))) \<and>
          list_all (\<lambda>r. report_logs r = []) (requests (handle now e s)) \<and>
          ui (handle now e s) \<noteq> ui s)"
proof -
  have w: "world_inv (world (handle now e s))"
    using assms
    by (intro handle_world_preserves[where Q = world_inv])
      (simp_all add: sys_inv_def world_inv_call world_inv_start world_inv_stop world_inv_getLogs)
  have r: "consoleCapture (rendered (handle now e s)) < length (captures (world (handle now e s)))"
    using assms by (simp add: rendered_handle length_captures_handle sys_inv_def)
  have q: "list_all (\<lambda>r. report_logs r = []) (requests (handle now e s))"
  proof -
    from requests_handle[of now e s]
    consider "requests (handle now e s) = requests s"
      | a where "requests (handle now e s) = requests s @ [a]" "report_logs a = []"
      | r where "panel_rendered s" "requests (handle now e s) = requests s @ [r]"
          "report_logs r = heap (world s) ! logs (captures (world s) ! consoleCapture (rendered s))"
      by blast
    then show ?thesis
    proof cases
      case 1
      then show ?thesis using assms by (simp add: sys_inv_def)
    next
      case 2
      then show ?thesis using assms by (simp add: sys_inv_def)
    next
      case 3
      from 3(1) assms have "0 < consoleCapture (rendered s)"
        by (auto simp: sys_inv_def panel_rendered_def)
      with assms have "heap (world s) ! logs (captures (world s) ! consoleCapture (rendered s)) = []"
        by (simp add: sys_inv_def world_inv_def)
      with 3 assms show ?thesis by (simp add: sys_inv_def)
    qed
  qed
  show ?thesis
  proof (cases "ui (handle now e s) = ui s")
    case True
    then show ?thesis using w r q assms by (simp add: sys_inv_def rendered_handle)
  next
    case False
    then show ?thesis using w r q by simp
  qed
qed

lemma sys_inv_render:
  assumes "world_inv (world s)" "list_all (\<lambda>r. report_logs r = []) (requests s)"
  shows "sys_inv (render s)"
proof -
  have "world_inv (snd (new_ConsoleCapture (maxLogEntries (config s)) (world s)))"
    using assms(1) by (rule world_inv_new)
  moreover have "captures (world s) \<noteq> []" using assms(1) by (simp add: world_inv_def)
  ultimately show ?thesis
    using assms(2)
    by (simp add: sys_inv_def render_def split_def Let_def)
      (simp add: new_ConsoleCapture_def alloc_def)
qed

lemma sys_inv_step:
  assumes "sys_inv s"
  shows "sys_inv (step now e s)"
proof (cases "ui (handle now e s) = ui s")
  case True
  with sys_inv_handle[OF assms, of now e] show ?thesis by (simp add: step_def)
next
  case False
  from sys_inv_handle[OF assms, of now e]
  have "world_inv (world (handle now e s))"
    "list_all (\<lambda>r. report_logs r = []) (requests (handle now e s))"
    by (auto simp: sys_inv_def)
  then have "sys_inv (render (handle now e s))" by (rule sys_inv_render)
  with False show ?thesis by (simp add: step_def)
qed

lemma sys_inv_steps: "sys_inv s \<Longrightarrow> sys_inv (steps es s)"
  by (induction es arbitrary: s) (auto simp: sys_inv_step)

lemma sys_inv_initial: "sys_inv (initial cfg pg)"
  by (simp add: sys_inv_def world_inv_def initial_def initial_widget_def first_render_def
      new_ConsoleCapture_def host_world_def alloc_def hosts_def)

subsection \<open>Facts about the concrete runs\<close>

lemma initial_widget_example:
  "initial_widget example_config (page_settings example_page) (page_sessions example_page) =
     \<lparr> isOpen = False, showSettings = False, comment = [], screenshot = None,
       isCapturing = False, isSending = False, status = [], projectPath = [],
       debugMode = Wait, isWaitingForResponse = False, sessions = [], questions = [],
       sessionId = None, answers = [], currentStep = 0 \<rparr>"
  by (simp add: initial_widget_def example_config_def example_page_def loadStoredSettings_def
      loadSessions_def)

lemma enabled_example [simp]: "enabled example_config"
  by (simp add: example_config_def)

lemma opened_facts:
  "ui opened =
     \<lparr> isOpen = True, showSettings = False, comment = [], screenshot = None,
       isCapturing = False, isSending = False, status = [], projectPath = [],
       debugMode = Wait, isWaitingForResponse = False, sessions = [], questions = [],
       sessionId = None, answers = [], currentStep = 0 \<rparr>"
  "config opened = example_config"
  by (simp_all add: opened_def ui_handlers initial_widget_example)

lemma backlog_ready_facts:
  "ui backlog_ready = (ui opened)\<lparr> debugMode := Backlog \<rparr>"
  "config backlog_ready = example_config"
  by (simp_all add: backlog_ready_def opened_facts panel_rendered_def settings_rendered_def)

lemma waiting_facts:
  "ui waiting =
     (ui opened)
       \<lparr> sessions := [newSession (fst (handleSend_begin 5 opened))
                        (Some \<lparr> rd_reportId = Some ''r1'', rd_timestamp = Some 1000,
                                 rd_sessionId = Some ''s1'', rd_backlogItemId = None \<rparr>)],
         isWaitingForResponse := True,
         status := ''Waiting for response...'' \<rparr>"
  "config waiting = example_config"
proof -
  have ok: "submitDebugReport_result peer_ok =
      Inr (Some \<lparr> rd_reportId = Some ''r1'', rd_timestamp = Some 1000,
                    rd_sessionId = Some ''s1'', rd_backlogItemId = None \<rparr>)"
    by (simp add: peer_ok_def)
  have p: "ps_debugMode (fst (handleSend_begin 5 opened)) = Wait"
    "ps_sessions (fst (handleSend_begin 5 opened)) = []"
    by (simp_all add: handleSend_begin_def Let_def split_def opened_facts)
  show "ui waiting =
     (ui opened)
       \<lparr> sessions := [newSession (fst (handleSend_begin 5 opened))
                        (Some \<lparr> rd_reportId = Some ''r1'', rd_timestamp = Some 1000,
                                 rd_sessionId = Some ''s1'', rd_backlogItemId = None \<rparr>)],
         isWaitingForResponse := True,
         status := ''Waiting for response...'' \<rparr>"
    by (simp add: waiting_def ui_settle_success[OF ok] ui_handlers p opened_facts
        panel_rendered_def)
  show "config waiting = example_config"
    by (simp add: waiting_def opened_facts)
qed

lemmas eval_defs =
  step_def render_def mount_def unmount_def connect_def disconnect_def onQuestions_def
  scheduleReconnect_def clearTimeout_def timer_fired_def ws_onopen_def ws_onclose_def
  ws_onerror_def ws_onmessage_def widget_onQuestions_def log_to_console_def console_called_def
  set_ui_def first_render_def initial_def initial_widget_def loadStoredSettings_def loadSessions_def
  example_config_def example_page_def new_ConsoleCapture_def host_world_def alloc_def
  limit_of_def start_def console_call_def captureLog_def push_shift_def make_entry_def
  stringify_arg_def entry_stack_def string_arg_def panel_rendered_def Let_def

lemma logged_state:
  "world (steps logged (initial example_config example_page)) =
     \<lparr> heap = [[entry_a, entry_b], []],
       console = \<lparr> log = Wrapper 0 Log, warn = Wrapper 0 Warn, error = Wrapper 0 Error \<rparr>,
       captures =
         [\<lparr> logs = 0, maxEntries = Num 1000,
            originalConsole = \<lparr> log = Host 0, warn = Host 1, error = Host 2 \<rparr> \<rparr>,
          \<lparr> logs = 1, maxEntries = Num 1000,
            originalConsole =
              \<lparr> log = Wrapper 0 Log, warn = Wrapper 0 Warn, error = Wrapper 0 Error \<rparr> \<rparr>],
       forwarded = [(0, [string_arg ''a'']), (1, [string_arg ''b''])] \<rparr>"
  "rendered (steps logged (initial example_config example_page)) =
     \<lparr> consoleCapture = 1, errorCapture = 1 \<rparr>"
  "errorCaptures (steps logged (initial example_config example_page)) = [None, None]"
  "requests (steps logged (initial example_config example_page)) = []"
  "ui (steps logged (initial example_config example_page)) =
     \<lparr> isOpen = True, showSettings = False, comment = [], screenshot = None,
       isCapturing = False, isSending = False, status = [], projectPath = [],
       debugMode = Wait, isWaitingForResponse = False, sessions = [], questions = [],
       sessionId = None, answers = [], currentStep = 0 \<rparr>"
  by (simp_all add: logged_def eval_defs entry_a_def entry_b_def)

subsection \<open>The claims about the socket client and the component\<close>

text \<open>
  Claim C2 (required questions block Next) does not hold of the component: the handler of
  the Next button is \<^verbatim>\<open>setCurrentStep(currentStep + 1)\<close> and reads neither \<^verbatim>\<open>required\<close> nor
  the answers. Here the mounted component has received a batch of two questions, the
  first a required text question; nothing has been answered, and a click on Next moves
  from index 0 to index 1.
\<close>

theorem next_ignores_required:
  "question_rendered asked \<and>
   questions (ui asked) ! currentStep (ui asked) = q1 \<and>
   q_type q1 = TextQuestion \<and> required q1 \<and>
   map_of (answers (ui asked)) (q_id q1) = None \<and>
   currentStep (ui asked) = 0 \<and>
   currentStep (ui (step 3 ClickNext asked)) = 1"
proof -
  have "registered opened"
    unfolding opened_def steps.simps by (rule registered_mounted[of "[(1, ToggleOpen)]", simplified])
  then have cb: "onQuestionsCallback (wsClient opened) = Some WidgetOnQuestions"
    by (simp add: registered_iff)
  have u: "ui asked = (ui opened)\<lparr> sessionId := Some ''s1'', questions := [q1, q2], answers := [],
      currentStep := 0, isWaitingForResponse := False, status := ''Questions received'' \<rparr>"
    by (simp add: asked_def ws_onmessage_def cb widget_onQuestions_def)
  have c: "config asked = example_config" by (simp add: asked_def opened_facts)
  show ?thesis
    by (simp add: u c question_rendered_def q1_def)
qed

text \<open>
  Claim C3 (single pending reconnection timer). In every state the component can reach,
  by any events in any order, at most one timer is pending. A close event leaves exactly
  one timer pending, of 5000 ms, whose handle the client holds; it called \<^verbatim>\<open>setTimeout\<close>
  only if none was pending. Any number of further close events change neither the pending
  timers nor the number of timers ever scheduled. When the timer fires, one socket is
  constructed and no timer is left.
\<close>

theorem single_reconnect_timer:
  "let s = steps evs (initial cfg pg);
       s1 = step t SocketClosed s;
       s2 = steps (map (\<lambda>t'. (t', SocketClosed)) ts) s1;
       s3 = step t3 (TimerFired (fst (hd (timers s2))) None) s2
   in length (timers s) \<le> 1 \<and>
      (\<exists>h. timers s1 = [(h, 5000)] \<and> reconnectTimeout (wsClient s1) = Some h) \<and>
      nextTimer s1 = (if timers s = [] then Suc (nextTimer s) else nextTimer s) \<and>
      timers s2 = timers s1 \<and> nextTimer s2 = nextTimer s1 \<and>
      timers s3 = [] \<and> length (sockets s3) = Suc (length (sockets s2))"
proof -
  define s where "s = steps evs (initial cfg pg)"
  define s1 where "s1 = step t SocketClosed s"
  define s2 where "s2 = steps (map (\<lambda>t'. (t', SocketClosed)) ts) s1"
  define s3 where "s3 = step t3 (TimerFired (fst (hd (timers s2))) None) s2"
  have inv: "timer_inv s" unfolding s_def by (rule timer_inv_steps[OF timer_inv_initial])
  have a: "length (timers s) \<le> 1"
    using inv by (simp add: timer_inv_iff split: option.splits)
  have n1: "net s1 = net (ws_onclose t s)"
    unfolding s1_def by (simp add: net_step)
  from close_schedules[OF inv, of t]
  obtain h where h: "timers s1 = [(h, 5000)]" "reconnectTimeout (wsClient s1) = Some h"
    and n: "nextTimer s1 = (if timers s = [] then Suc (nextTimer s) else nextTimer s)"
    using n1 by (auto simp: net_def)
  have "net s2 = net s1"
    unfolding s2_def using h(2) by (intro closes_idempotent) simp
  then have c: "timers s2 = timers s1" "nextTimer s2 = nextTimer s1" "wsClient s2 = wsClient s1"
    by (simp_all add: net_def)
  have "net s3 = net (timer_fired h None t3 s2)"
    unfolding s3_def using c h by (simp add: net_step)
  then have d: "timers s3 = [] \<and> length (sockets s3) = Suc (length (sockets s2))"
    using c h
    by (simp add: net_def timer_fired_def connect_def clearTimeout_def)
  show ?thesis
    using a h n c d
    unfolding Let_def s_def[symmetric] s1_def[symmetric] s2_def[symmetric] s3_def[symmetric]
    by simp
qed

theorem single_reconnect_timer_witness:
  "timers (steps [(0, Mounted None), (1, SocketOpened)] (initial example_config example_page)) = [] \<and>
   timers (steps [(3, SocketClosed)]
     (step 2 SocketClosed
        (steps [(0, Mounted None), (1, SocketOpened)] (initial example_config example_page)))) =
     [(1, 5000)] \<and>
   nextTimer (steps [(3, SocketClosed)]
     (step 2 SocketClosed
        (steps [(0, Mounted None), (1, SocketOpened)] (initial example_config example_page)))) = 2"
proof -
  let ?s = "steps [(0, Mounted None), (1, SocketOpened)] (initial example_config example_page)"
  have n: "net ?s = ([], 1, [''ws://localhost:4000''],
      \<lparr> ws_url = ''http://localhost:4000'', ws = Some 0, reconnectTimeout = None,
        onQuestionsCallback = Some WidgetOnQuestions \<rparr>)"
    by (simp add: net_step)
      (simp add: net_def mount_def connect_def onQuestions_def initial_def example_config_def
        replace_http_def)
  have a: "timers ?s = []" "nextTimer ?s = 1"
    using n by (simp_all add: net_def)
  have "net (step 2 SocketClosed ?s) = net (ws_onclose 2 ?s)"
    by (simp add: net_step)
  then have b: "timers (step 2 SocketClosed ?s) = [(1, 5000)]"
    using n
    by (simp add: net_def ws_onclose_def scheduleReconnect_def log_to_console_def
        console_called_def)
  note th = single_reconnect_timer[of "[(0, Mounted None), (1, SocketOpened)]" example_config
      example_page 2 "[3]", unfolded Let_def]
  from th a b show ?thesis by simp
qed

text \<open>
  The report and the capture objects. \<^verbatim>\<open>handleSend\<close> calls \<^verbatim>\<open>getLogs()\<close> on the
  \<^verbatim>\<open>ConsoleCapture\<close> of the render it belongs to. The send button is rendered only while
  \<^verbatim>\<open>isOpen\<close> holds, which takes a state change and so a render after the first; only the
  object of the first render is ever started. In every run, therefore, every report
  handed to \<^verbatim>\<open>fetch\<close> has an empty \<^verbatim>\<open>logs\<close> array, whatever the started capture holds.
\<close>

theorem reports_carry_no_logs:
  "list_all (\<lambda>r. report_logs r = []) (requests (steps evs (initial cfg pg)))"
  using sys_inv_steps[OF sys_inv_initial, of evs cfg pg] by (simp add: sys_inv_def)

text \<open>
  Claim C4 (the submitted logs are the buffer's entries at send time) does not hold of the
  component. After \<^verbatim>\<open>console.log("a")\<close> and \<^verbatim>\<open>console.warn("b")\<close> on the mounted component
  the started capture holds both entries; the user opens the panel and clicks Send; the
  report handed to \<^verbatim>\<open>fetch\<close> has \<^verbatim>\<open>logs = []\<close>.
\<close>

theorem report_without_captured_logs:
  "snapshot (consoleCapture first_render) (world (steps logged (initial example_config example_page))) =
     [entry_a, entry_b] \<and>
   requests (step 5 ClickSend (steps logged (initial example_config example_page))) =
     [\<lparr> http_url = ''http://localhost:4000/api/debug'',
        http_body = DebugReport
          \<lparr> req_logs = [], req_error = None, req_screenshot = None, req_comment = [],
            req_url = ''http://localhost:3000/'', req_projectPath = None, req_timestamp = 5,
            req_userAgent = Some ''Mozilla/5.0'', req_mode = Some Wait,
            req_priority = Some Medium \<rparr> \<rparr>]"
proof -
  let ?s = "steps logged (initial example_config example_page)"
  have a: "snapshot (consoleCapture first_render) (world ?s) = [entry_a, entry_b]"
    by (simp add: logged_state snapshot_def getLogs_def alloc_def first_render_def)
  have env: "location_href ?s = ''http://localhost:3000/''" "userAgent ?s = ''Mozilla/5.0''"
    by (simp_all add: logged_def eval_defs)
  have cfg: "mcpUrl (config ?s) = ''http://localhost:4000''"
    by (simp add: example_config_def)
  have b: "requests (snd (handleSend_begin 5 ?s)) =
     [\<lparr> http_url = ''http://localhost:4000/api/debug'',
        http_body = DebugReport
          \<lparr> req_logs = [], req_error = None, req_screenshot = None, req_comment = [],
            req_url = ''http://localhost:3000/'', req_projectPath = None, req_timestamp = 5,
            req_userAgent = Some ''Mozilla/5.0'', req_mode = Some Wait,
            req_priority = Some Medium \<rparr> \<rparr>]"
    by (simp add: handleSend_begin_def Let_def split_def set_ui_def logged_state getLogs_def
        alloc_def JSON_stringify_request_def env cfg del: config_steps)
  have "requests (step 5 ClickSend ?s) = requests (snd (handleSend_begin 5 ?s))"
    by (simp add: step_def Let_def render_def split_def panel_rendered_def logged_state)
  with a b show ?thesis by simp
qed

text \<open>
  Claim C6 (backlog mode never awaits the peer). Let the send button be enabled (panel
  rendered, neither sending nor waiting) and the mode be backlog. After the click the flow
  is sending. Whatever happens before the request settles (any events but the settling of
  a send; none other is in flight, the button being disabled), the component is not
  waiting for a response; and once the request has settled, whatever the outcome and the
  shape of the response, the flow is idle, with the status \<^verbatim>\<open>Added to backlog\<close> on
  success. In general, for every event and state: the waiting flag goes from false to
  true only when a send in wait mode settles with success; and such a send leaves the flow
  awaiting the peer.
\<close>

theorem backlog_never_awaits:
  assumes "panel_rendered s" and "send_state (ui s) = Idle" and "debugMode (ui s) = Backlog"
    and "list_all (\<lambda>x. \<not> is_send_settled (snd x)) evs"
  shows "let s1 = step t1 ClickSend s;
             p = fst (handleSend_begin t1 s);
             s2 = steps evs s1;
             s3 = step t3 (SendSettled p outcome) s2
         in ps_debugMode p = Backlog \<and>
            send_state (ui s1) = SendingReport \<and>
            \<not> isWaitingForResponse (ui s2) \<and>
            send_state (ui s3) = Idle \<and>
            status (ui s3) = (case submitDebugReport_result outcome of
                                Inr d \<Rightarrow> ''Added to backlog''
                              | Inl e \<Rightarrow> ''Error: '' @ to_String e) \<and>
            (isWaitingForResponse (ui (step t e s')) \<and> \<not> isWaitingForResponse (ui s')
               \<longrightarrow> raises_waiting e) \<and>
            (ps_debugMode p' = Wait \<and> send_succeeds outcome'
               \<longrightarrow> send_state (ui (step t (SendSettled p' outcome') s')) = AwaitingPeer \<and>
                   status (ui (step t (SendSettled p' outcome') s')) = ''Waiting for response...'')"
proof -
  define s1 where "s1 = step t1 ClickSend s"
  define p where "p = fst (handleSend_begin t1 s)"
  define s2 where "s2 = steps evs s1"
  define s3 where "s3 = step t3 (SendSettled p outcome) s2"
  have idle: "\<not> isSending (ui s)" "\<not> isWaitingForResponse (ui s)"
    using assms(2) by (simp_all add: send_state_def split: if_splits)
  have a: "handle t1 ClickSend s = snd (handleSend_begin t1 s)"
    using assms(1) idle by simp
  have b: "ps_debugMode p = Backlog"
    unfolding p_def using assms(3) by (simp add: handleSend_begin_def Let_def split_def)
  have u1: "ui s1 = (ui s)\<lparr> isSending := True, status := ''Sending...'' \<rparr>"
    unfolding s1_def ui_step a by (simp add: ui_handlers)
  have c: "send_state (ui s1) = SendingReport" by (simp add: u1 send_state_def)
  have "\<not> isWaitingForResponse (ui s1)" using idle by (simp add: u1)
  from not_waiting_steps[OF assms(4) this]
  have d: "\<not> isWaitingForResponse (ui s2)" by (simp add: s2_def)
  have e: "send_state (ui s3) = Idle \<and>
           status (ui s3) = (case submitDebugReport_result outcome of
                               Inr d \<Rightarrow> ''Added to backlog''
                             | Inl e \<Rightarrow> ''Error: '' @ to_String e)"
  proof (cases "submitDebugReport_result outcome")
    case (Inl x)
    then show ?thesis unfolding s3_def by (simp add: ui_settle_failure send_state_def)
  next
    case (Inr r)
    then show ?thesis unfolding s3_def using b d by (simp add: ui_settle_success send_state_def)
  qed
  have f: "isWaitingForResponse (ui (step t e s')) \<and> \<not> isWaitingForResponse (ui s')
             \<longrightarrow> raises_waiting e"
    using waiting_step by blast
  have g: "ps_debugMode p' = Wait \<and> send_succeeds outcome'
             \<longrightarrow> send_state (ui (step t (SendSettled p' outcome') s')) = AwaitingPeer \<and>
                 status (ui (step t (SendSettled p' outcome') s')) = ''Waiting for response...''"
    by (auto simp: send_succeeds_def ui_settle_success send_state_def split: sum.splits)
  from b c d e f g show ?thesis
    unfolding Let_def s3_def s2_def s1_def p_def by blast
qed

theorem backlog_never_awaits_witness:
  "panel_rendered backlog_ready \<and> send_state (ui backlog_ready) = Idle \<and>
   debugMode (ui backlog_ready) = Backlog \<and>
   list_all (\<lambda>x. \<not> is_send_settled (snd x))
     [(6, SocketMessage OtherMessage), (7, ConsoleCalled Log [string_arg ''x''])] \<and>
   send_state (ui (step 8 (SendSettled (fst (handleSend_begin 5 backlog_ready)) peer_ok)
     (steps [(6, SocketMessage OtherMessage), (7, ConsoleCalled Log [string_arg ''x''])]
        (step 5 ClickSend backlog_ready)))) = Idle \<and>
   status (ui (step 8 (SendSettled (fst (handleSend_begin 5 backlog_ready)) peer_ok)
     (steps [(6, SocketMessage OtherMessage), (7, ConsoleCalled Log [string_arg ''x''])]
        (step 5 ClickSend backlog_ready)))) = ''Added to backlog''"
proof -
  have h1: "panel_rendered backlog_ready"
    by (simp add: panel_rendered_def backlog_ready_facts opened_facts)
  have h2: "send_state (ui backlog_ready) = Idle"
    by (simp add: send_state_def backlog_ready_facts opened_facts)
  have h3: "debugMode (ui backlog_ready) = Backlog"
    by (simp add: backlog_ready_facts)
  have h4: "list_all (\<lambda>x. \<not> is_send_settled (snd x))
     [(6, SocketMessage OtherMessage), (7, ConsoleCalled Log [string_arg ''x''])]"
    by (simp add: is_send_settled_def)
  have ok: "submitDebugReport_result peer_ok =
      Inr (Some \<lparr> rd_reportId = Some ''r1'', rd_timestamp = Some 1000,
                    rd_sessionId = Some ''s1'', rd_backlogItemId = None \<rparr>)"
    by (simp add: peer_ok_def)
  note th = backlog_never_awaits[OF h1 h2 h3 h4, of 5 8 peer_ok, unfolded Let_def ok sum.case]
  from th h1 h2 h3 h4 show ?thesis by blast
qed

text \<open>
  Claim C7 (a question batch preempts waiting). In every state of the mounted component,
  the awaiting state included, a questions message sets the session id and the questions
  to those delivered, empties the answers, sets the index to 0, clears the waiting flag
  and replaces the status by \<^verbatim>\<open>Questions received\<close>; no other state variable changes. The
  flow is not awaiting the peer afterwards, and the question block is rendered whenever
  the batch has a question (and the component is enabled). The witness is the scenario
  of a report sent in wait mode and answered with the session \<^verbatim>\<open>s1\<close>, then a batch of one
  question.
\<close>

theorem question_batch_preempts:
  "let s = steps evs (step t0 (Mounted throws) (initial cfg pg));
       s' = step now (SocketMessage (QuestionsMessage sid qs)) s
   in ui s' = (ui s)\<lparr> sessionId := Some sid, questions := qs, answers := [], currentStep := 0,
                        isWaitingForResponse := False, status := ''Questions received'' \<rparr> \<and>
      send_state (ui s') \<noteq> AwaitingPeer \<and>
      question_rendered s' = (enabled (config s) \<and> qs \<noteq> [])"
proof -
  define s where "s = steps evs (step t0 (Mounted throws) (initial cfg pg))"
  have "registered s" unfolding s_def by (rule registered_mounted)
  then have cb: "onQuestionsCallback (wsClient s) = Some WidgetOnQuestions"
    by (simp add: registered_iff)
  have "handle now (SocketMessage (QuestionsMessage sid qs)) s = widget_onQuestions sid qs now s"
    by (simp add: ws_onmessage_def cb)
  then show ?thesis
    unfolding Let_def s_def[symmetric]
    by (simp add: widget_onQuestions_def send_state_def question_rendered_def config_step)
qed

theorem question_batch_preempts_witness:
  "send_state (ui waiting) = AwaitingPeer \<and>
   status (ui waiting) = ''Waiting for response...'' \<and>
   sessionId (ui (step 7 (SocketMessage (QuestionsMessage ''s1'' [q1])) waiting)) = Some ''s1'' \<and>
   questions (ui (step 7 (SocketMessage (QuestionsMessage ''s1'' [q1])) waiting)) = [q1] \<and>
   answers (ui (step 7 (SocketMessage (QuestionsMessage ''s1'' [q1])) waiting)) = [] \<and>
   currentStep (ui (step 7 (SocketMessage (QuestionsMessage ''s1'' [q1])) waiting)) = 0 \<and>
   status (ui (step 7 (SocketMessage (QuestionsMessage ''s1'' [q1])) waiting)) = ''Questions received'' \<and>
   send_state (ui (step 7 (SocketMessage (QuestionsMessage ''s1'' [q1])) waiting)) = Idle \<and>
   question_rendered (step 7 (SocketMessage (QuestionsMessage ''s1'' [q1])) waiting)"
proof -
  have w: "waiting =
      steps [(1, ToggleOpen), (5, ClickSend),
             (6, SendSettled (fst (handleSend_begin 5 opened)) peer_ok)]
        (step 0 (Mounted None) (initial example_config example_page))"
    by (simp add: waiting_def opened_def)
  note th = question_batch_preempts[of
      "[(1, ToggleOpen), (5, ClickSend), (6, SendSettled (fst (handleSend_begin 5 opened)) peer_ok)]"
      0 None example_config example_page 7 "''s1''" "[q1]", folded w, unfolded Let_def]
  have a: "send_state (ui waiting) = AwaitingPeer" "status (ui waiting) = ''Waiting for response...''"
    "\<not> isSending (ui waiting)"
    by (simp_all add: waiting_facts send_state_def opened_facts)
  from th a show ?thesis
    by (simp add: waiting_facts send_state_def opened_facts)
qed

text \<open>
  Claim C8 (a failed send keeps the comment). When the promise of \<^verbatim>\<open>submitDebugReport\<close>
  rejects, the comment, the screenshot and the session history are as before, the flow
  is idle, and the status shows the error. Both kinds of failure reject: a \<^verbatim>\<open>fetch\<close> that
  cannot complete, and a response that is not ok. A send that succeeds empties the
  comment; and for every event and state, the comment changes only by the user's input
  or by a send that succeeds.
\<close>

theorem failed_send_keeps_comment:
  assumes "submitDebugReport_result outcome = Inl x"
  shows "let s' = step now (SendSettled p outcome) s
         in comment (ui s') = comment (ui s) \<and>
            screenshot (ui s') = screenshot (ui s) \<and>
            sessions (ui s') = sessions (ui s) \<and>
            send_state (ui s') = Idle \<and>
            status (ui s') = ''Error: '' @ to_String x \<and>
            submitDebugReport_result (Rejected y) = Inl y \<and>
            submitDebugReport_result (Response False st b) =
              Inl (new_Error (''Failed to submit debug report: '' @ st)) \<and>
            (send_succeeds outcome' \<longrightarrow> comment (ui (step t (SendSettled p' outcome') s'')) = []) \<and>
            (comment (ui (step t e s'')) \<noteq> comment (ui s'') \<longrightarrow> changes_comment e)"
proof -
  have a: "send_succeeds outcome' \<longrightarrow> comment (ui (step t (SendSettled p' outcome') s'')) = []"
    by (auto simp: send_succeeds_def ui_settle_success split: sum.splits)
  have b: "comment (ui (step t e s'')) \<noteq> comment (ui s'') \<longrightarrow> changes_comment e"
    using comment_step by blast
  show ?thesis
    unfolding Let_def using a b
    by (simp add: ui_settle_failure[OF assms] send_state_def)
qed

theorem failed_send_keeps_comment_witness:
  "submitDebugReport_result peer_rejects =
     Inl (new_Error ''Failed to submit debug report: Internal Server Error'') \<and>
   comment (ui (step 5 ClickSend typed)) = ''it broke'' \<and>
   comment (ui (step 6 (SendSettled (fst (handleSend_begin 5 typed)) peer_rejects)
     (step 5 ClickSend typed))) = ''it broke'' \<and>
   send_state (ui (step 6 (SendSettled (fst (handleSend_begin 5 typed)) peer_rejects)
     (step 5 ClickSend typed))) = Idle \<and>
   status (ui (step 6 (SendSettled (fst (handleSend_begin 5 typed)) peer_rejects)
     (step 5 ClickSend typed))) =
     ''Error: Error: Failed to submit debug report: Internal Server Error''"
proof -
  have h: "submitDebugReport_result peer_rejects =
     Inl (new_Error ''Failed to submit debug report: Internal Server Error'')"
    by (simp add: peer_rejects_def)
  have c: "comment (ui (step 5 ClickSend typed)) = ''it broke''"
    by (simp add: typed_def opened_facts panel_rendered_def ui_handlers)
  note th = failed_send_keeps_comment[OF h, of 6 "fst (handleSend_begin 5 typed)"
      "step 5 ClickSend typed", unfolded Let_def]
  from th h c show ?thesis by (simp add: new_Error_def)
qed

text \<open>
  Claim C10 (submitting without a session). With \<^verbatim>\<open>sessionId\<close> null,
  \<^verbatim>\<open>handleSubmitAnswers\<close> returns at once: no request is issued and the whole system state
  (questions, answers, session history, waiting flag, status and all the rest) is what
  it was.
\<close>

theorem submit_without_session_is_noop:
  assumes "sessionId (ui s) = None"
  shows "handleSubmitAnswers_begin s = (None, s) \<and> step now ClickSubmitAnswers s = s"
proof -
  have a: "handleSubmitAnswers_begin s = (None, s)"
    using assms by (simp add: handleSubmitAnswers_begin_def)
  then have "handle now ClickSubmitAnswers s = s" by simp
  then show ?thesis using a by (simp add: step_def)
qed

theorem submit_without_session_is_noop_witness:
  "sessionId (ui opened) = None \<and>
   handleSubmitAnswers_begin opened = (None, opened) \<and>
   step 5 ClickSubmitAnswers opened = opened"
proof -
  have h: "sessionId (ui opened) = None"
    by (simp add: opened_facts)
  from submit_without_session_is_noop[OF h, of 5] h show ?thesis by simp
qed

end
